theory Spec2Isabelle
  imports Complex_Main
begin

section \<open>JavaScript numbers and array primitives used by the classifier\<close>

text \<open>
  \<^verbatim>\<open>predictions.data()\<close> yields a \<^verbatim>\<open>Float32Array\<close>. Its elements are IEEE numbers: a
  finite value, one of the two infinities, or NaN. Finite single-precision values are
  dyadic rationals with a 24-bit significand, so their product with \<open>100\<close> in double
  precision is exact; finite numbers are therefore modelled by \<^typ>\<open>real\<close>.
\<close>

datatype number = NaN | NegInf | Fin real | PosInf

text \<open>\<^verbatim>\<open>Math.max(a, b)\<close>: NaN is contagious, otherwise the larger argument.\<close>

fun max2 :: "number \<Rightarrow> number \<Rightarrow> number" where
  "max2 NaN y = NaN"
| "max2 x NaN = NaN"
| "max2 PosInf y = PosInf"
| "max2 x PosInf = PosInf"
| "max2 NegInf y = y"
| "max2 x NegInf = x"
| "max2 (Fin a) (Fin b) = Fin (max a b)"

text \<open>\<^verbatim>\<open>Math.max(...xs)\<close>: starts from \<open>-Infinity\<close>, which is also the result for no arguments.\<close>

definition Math_max :: "number list \<Rightarrow> number" where
  "Math_max xs = foldl max2 NegInf xs"

text \<open>Strict equality \<^verbatim>\<open>===\<close> on numbers: NaN equals nothing, itself included.\<close>

fun strict_eq :: "number \<Rightarrow> number \<Rightarrow> bool" where
  "strict_eq NaN y = False"
| "strict_eq x NaN = False"
| "strict_eq x y = (x = y)"

text \<open>\<^verbatim>\<open>xs.indexOf(v)\<close>: index of the first strictly equal element, \<open>-1\<close> when there is none.\<close>

fun indexOf_from :: "number list \<Rightarrow> number \<Rightarrow> int \<Rightarrow> int" where
  "indexOf_from [] v k = - 1"
| "indexOf_from (x # xs) v k = (if strict_eq x v then k else indexOf_from xs v (k + 1))"

definition indexOf :: "number list \<Rightarrow> number \<Rightarrow> int" where
  "indexOf xs v = indexOf_from xs v 0"

text \<open>Indexed read \<^verbatim>\<open>xs[i]\<close>: \<open>None\<close> stands for \<^verbatim>\<open>undefined\<close>, the value out of range.\<close>

definition js_index :: "'a list \<Rightarrow> int \<Rightarrow> 'a option" where
  "js_index xs i = (if 0 \<le> i \<and> i < int (length xs) then Some (xs ! nat i) else None)"

text \<open>Truthiness of a reference that is either \<^verbatim>\<open>null\<close> or an object.\<close>

fun present :: "'a option \<Rightarrow> bool" where
  "present None = False"
| "present (Some x) = True"

text \<open>\<^verbatim>\<open>x * 100\<close> for an array element \<open>x\<close>; \<^verbatim>\<open>undefined * 100\<close> is NaN.\<close>

fun times_100 :: "number option \<Rightarrow> number" where
  "times_100 None = NaN"
| "times_100 (Some NaN) = NaN"
| "times_100 (Some NegInf) = NegInf"
| "times_100 (Some PosInf) = PosInf"
| "times_100 (Some (Fin r)) = Fin (r * 100)"

text \<open>
  \<^verbatim>\<open>x.toFixed(2)\<close>, used to display the confidence. For a finite \<open>x\<close> the digits are those
  of the integer \<open>n\<close> closest to \<open>100 * |x|\<close> (the larger one on a tie), with a leading
  minus sign when \<open>x < 0\<close>. From a magnitude of \<open>10^21\<close> on JavaScript switches to exponent
  notation, which is not modelled: the result is \<open>None\<close> there.
\<close>

definition digit_char :: "nat \<Rightarrow> char" where
  "digit_char d = ''0123456789'' ! (d mod 10)"

fun decimal :: "nat \<Rightarrow> string" where
  "decimal n = (if n < 10 then [digit_char n] else decimal (n div 10) @ [digit_char (n mod 10)])"

fun toFixed2 :: "number \<Rightarrow> string option" where
  "toFixed2 NaN = Some ''NaN''"
| "toFixed2 PosInf = Some ''Infinity''"
| "toFixed2 NegInf = Some ''-Infinity''"
| "toFixed2 (Fin x) =
     (if 10 ^ 21 \<le> \<bar>x\<bar> then None
      else let n = nat \<lfloor>\<bar>x\<bar> * 100 + 1 / 2\<rfloor>
           in Some ((if x < 0 then ''-'' else '''') @ decimal (n div 100) @ ''.''
                    @ [digit_char (n mod 100 div 10), digit_char (n mod 10)]))"

section \<open>Constants and the Prediction value\<close>

definition FRUIT_CLASSES :: "string list" where
  "FRUIT_CLASSES = [''Manzana'', ''Pl'' @ [CHR 0xE1] @ ''tano'', ''Naranja'']"

definition IMAGE_SIZE :: nat where
  "IMAGE_SIZE = 128"

text \<open>
  The interface declares \<^verbatim>\<open>fruit: string\<close>, but \<^verbatim>\<open>FRUIT_CLASSES[maxIndex]\<close> is
  \<^verbatim>\<open>undefined\<close> when the index is out of range, so the field is optional here.
\<close>

record Prediction =
  fruit :: "string option"
  confidence :: number

section \<open>Floating-point rounding\<close>

text \<open>
  The tensor library computes with JavaScript numbers (double precision) and stores tensor
  values in a \<^verbatim>\<open>Float32Array\<close> (single precision). A finite floating-point number is a
  real; an operation yields the exact result rounded to the nearest number of the format,
  ties to the even significand.

  \<open>round_float p emax emin\<close> rounds to \<open>p\<close> significant bits. The spacing of the
  format around \<open>|x|\<close> is found by halving or doubling \<open>|x|\<close> until it lies in \<open>[1, 2)\<close>,
  at most \<open>emax\<close> and \<open>emin\<close> times: below \<open>2^-emin\<close> the spacing stays that of the
  subnormal numbers. Magnitudes from \<open>2^(emax + 1)\<close> on, which the runtime turns into
  infinities, are outside what is modelled; no value computed from image bytes comes near.
\<close>

definition round_half_even :: "real \<Rightarrow> int" where
  "round_half_even x =
     (let f = \<lfloor>x\<rfloor>; d = x - of_int f
      in if d < 1 / 2 then f else if 1 / 2 < d then f + 1 else if even f then f else f + 1)"

fun quantum_up :: "nat \<Rightarrow> real \<Rightarrow> real \<Rightarrow> real" where
  "quantum_up n a q = (if n = 0 \<or> a < 2 then q else quantum_up (n - 1) (a / 2) (2 * q))"

fun quantum_down :: "nat \<Rightarrow> real \<Rightarrow> real \<Rightarrow> real" where
  "quantum_down n a q = (if n = 0 \<or> 1 \<le> a then q else quantum_down (n - 1) (2 * a) (q / 2))"

declare quantum_up.simps [simp del]
declare quantum_down.simps [simp del]

definition round_float :: "nat \<Rightarrow> nat \<Rightarrow> nat \<Rightarrow> real \<Rightarrow> real" where
  "round_float p emax emin x =
     (if x = 0 then 0
      else let a = \<bar>x\<bar>; q0 = 1 / 2 ^ (p - 1);
               q = (if 1 \<le> a then quantum_up emax a q0 else quantum_down emin a q0)
           in sgn x * (q * of_int (round_half_even (a / q))))"

definition to_float64 :: "real \<Rightarrow> real" where
  "to_float64 = round_float 53 1023 1022"

definition to_float32 :: "real \<Rightarrow> real" where
  "to_float32 = round_float 24 127 126"

section \<open>Tensors and the preprocessing pipeline\<close>

text \<open>
  A tensor is its shape and its values in row-major order. The four tensor operations
  that \<^verbatim>\<open>preprocessImage\<close> calls belong to the tensor library; they are written out here
  as the library's JavaScript kernels compute them: each arithmetic operation is a
  double-precision operation, and each value stored in a \<^verbatim>\<open>float32\<close> tensor is rounded to
  single precision.
\<close>

record tensor =
  shape :: "nat list"
  vals :: "real list"

text \<open>
  A visual source (image or video frame) as the canvas reads it: width, height and the
  RGBA bytes of the pixels, row by row.
\<close>

record image_element =
  elemWidth :: nat
  elemHeight :: nat
  rgba :: "nat list"

datatype exn =
  FromPixelsError | ResizeRankError | PredictError | DataError | ModelLoadError | CameraAccessError

text \<open>\<^verbatim>\<open>tf.browser.fromPixels(el)\<close> with the default three channels: drops alpha.\<close>

definition fromPixels :: "image_element \<Rightarrow> exn + tensor" where
  "fromPixels el =
     (let w = elemWidth el; h = elemHeight el
      in if w = 0 \<or> h = 0 \<or> length (rgba el) \<noteq> h * w * 4 then Inl FromPixelsError
         else Inr \<lparr>shape = [h, w, 3],
                   vals = concat (map (\<lambda>i. map (\<lambda>ch. real (rgba el ! (i * 4 + ch))) [0..<3])
                                      [0..<h * w])\<rparr>)"

text \<open>
  \<^verbatim>\<open>tf.image.resizeBilinear(t, [newH, newW])\<close> on a rank-3 tensor, with the defaults
  (corners not aligned, no half-pixel centres). The source coordinate of output row \<open>r\<close> is
  the ratio \<open>h / newH\<close> times \<open>r\<close>; its floor and its ceiling (capped at the last row)
  select the neighbours, its fractional part weighs them. The four neighbours are
  interpolated first along the row, then along the column, and the result is stored in a
  \<^verbatim>\<open>Float32Array\<close>. The only caller passes the rank-3 result of \<^verbatim>\<open>fromPixels\<close>; the batched
  rank-4 form is not needed and every other rank is answered with an error.
\<close>

definition source_coord :: "nat \<Rightarrow> nat \<Rightarrow> nat \<Rightarrow> real" where
  "source_coord old new k = to_float64 (to_float64 (real old / real new) * real k)"

definition src_floor :: "nat \<Rightarrow> nat \<Rightarrow> nat \<Rightarrow> nat" where
  "src_floor old new k = nat (max 0 \<lfloor>source_coord old new k\<rfloor>)"

definition src_ceil :: "nat \<Rightarrow> nat \<Rightarrow> nat \<Rightarrow> nat" where
  "src_ceil old new k = nat (min (int old - 1) \<lceil>source_coord old new k\<rceil>)"

definition src_frac :: "nat \<Rightarrow> nat \<Rightarrow> nat \<Rightarrow> real" where
  "src_frac old new k = to_float64 (source_coord old new k - real (src_floor old new k))"

definition bilinear_at ::
  "real list \<Rightarrow> nat \<Rightarrow> nat \<Rightarrow> nat \<Rightarrow> nat \<Rightarrow> nat \<Rightarrow> nat \<Rightarrow> nat \<Rightarrow> nat \<Rightarrow> real" where
  "bilinear_at xs h w c newH newW r cl d =
     (let rowFloor = src_floor h newH r; rowCeil = src_ceil h newH r;
          rowFrac = src_frac h newH r;
          colFloor = src_floor w newW cl; colCeil = src_ceil w newW cl;
          colFrac = src_frac w newW cl;
          topLeft = xs ! ((rowFloor * w + colFloor) * c + d);
          bottomLeft = xs ! ((rowCeil * w + colFloor) * c + d);
          topRight = xs ! ((rowFloor * w + colCeil) * c + d);
          bottomRight = xs ! ((rowCeil * w + colCeil) * c + d);
          top = to_float64 (topLeft + to_float64 (to_float64 (topRight - topLeft) * colFrac));
          bottom = to_float64 (bottomLeft
                     + to_float64 (to_float64 (bottomRight - bottomLeft) * colFrac));
          newValue = to_float64 (top + to_float64 (to_float64 (bottom - top) * rowFrac))
      in to_float32 newValue)"

definition resizeBilinear :: "tensor \<Rightarrow> nat \<times> nat \<Rightarrow> exn + tensor" where
  "resizeBilinear t size2 =
     (case shape t of
        [h, w, c] \<Rightarrow>
          (let newH = fst size2; newW = snd size2
           in Inr \<lparr>shape = [newH, newW, c],
                   vals = concat (map (\<lambda>r. concat (map (\<lambda>cl.
                             map (\<lambda>d. bilinear_at (vals t) h w c newH newW r cl d) [0..<c])
                             [0..<newW])) [0..<newH])\<rparr>)
      | _ \<Rightarrow> Inl ResizeRankError)"

text \<open>
  \<^verbatim>\<open>t.div(255.0)\<close> on a \<^verbatim>\<open>float32\<close> tensor: each quotient is computed in double precision
  and stored in single precision. Then \<^verbatim>\<open>t.expandDims(0)\<close>.
\<close>

definition div_255 :: "tensor \<Rightarrow> tensor" where
  "div_255 t = t\<lparr>vals := map (\<lambda>x. to_float32 (to_float64 (x / 255))) (vals t)\<rparr>"

definition expandDims0 :: "tensor \<Rightarrow> tensor" where
  "expandDims0 t = t\<lparr>shape := 1 # shape t\<rparr>"

text \<open>
  \<^verbatim>\<open>preprocessImage\<close>: the promise it returns is rejected (\<open>Inl\<close>) when a step throws.
  \<^verbatim>\<open>tf.tidy\<close> frees the intermediate tensors; only the returned tensor stays allocated.
\<close>

definition preprocessImage :: "image_element \<Rightarrow> exn + tensor" where
  "preprocessImage imageElement =
     (case fromPixels imageElement of
        Inl e \<Rightarrow> Inl e
      | Inr t0 \<Rightarrow>
          (case resizeBilinear t0 (IMAGE_SIZE, IMAGE_SIZE) of
             Inl e \<Rightarrow> Inl e
           | Inr t1 \<Rightarrow> Inr (expandDims0 (div_255 t1))))"

section \<open>Application state and its environment\<close>

text \<open>
  The loaded network is opaque. What matters to the component is what a forward pass on a
  tensor does: \<^verbatim>\<open>model.predict\<close> throws, or it returns an output tensor whose
  \<^verbatim>\<open>data()\<close> promise is rejected, or resolves to the array of class scores.
\<close>

datatype forward_result = PredictThrows | DataRejects | Probabilities "number list"

type_synonym layers_model = "tensor \<Rightarrow> forward_result"

text \<open>The video element; its \<^verbatim>\<open>srcObject\<close> is a media stream, given by the ids of its tracks.\<close>

record video_element =
  srcObject :: "nat list option"

datatype console_entry = ConsoleLog string | ConsoleError string exn

text \<open>
  The first seven fields are the component's state hooks and refs. The others are the
  environment the component acts on: the calls of \<^verbatim>\<open>startWebcam\<close> that are suspended at
  their \<^verbatim>\<open>await\<close> (each with the model its closure captured), the window's active interval
  timers (each with the model its callback closed over), the camera tracks that are live,
  the tensors that are allocated, the console, the alerts shown, and the number of forward
  passes started.
\<close>

record app_state =
  model :: "layers_model option"
  isModelLoading :: bool
  webcamActive :: bool
  prediction :: "Prediction option"
  imagePreview :: "string option"
  videoRef :: "video_element option"
  intervalRef :: "nat option"
  pendingStarts :: "layers_model option list"
  timers :: "(nat \<times> layers_model option) list"
  nextTimer :: nat
  liveTracks :: "nat list"
  nextTrack :: nat
  liveTensors :: "nat list"
  nextTensor :: nat
  console :: "console_entry list"
  alerts :: "string list"
  forwardPasses :: nat

definition initial_state :: app_state where
  "initial_state =
     \<lparr>model = None, isModelLoading = True, webcamActive = False, prediction = None,
      imagePreview = None, videoRef = None, intervalRef = None, pendingStarts = [],
      timers = [], nextTimer = 0, liveTracks = [], nextTrack = 0, liveTensors = [],
      nextTensor = 0, console = [], alerts = [], forwardPasses = 0\<rparr>"

text \<open>
  Rendering: the \<^verbatim>\<open><video>\<close> element exists, and the ref points to it, exactly when loading
  has ended and a model is present.
\<close>

definition render :: "app_state \<Rightarrow> app_state" where
  "render s =
     s\<lparr>videoRef :=
         (if \<not> isModelLoading s \<and> present (model s)
          then Some (case videoRef s of Some v \<Rightarrow> v | None \<Rightarrow> \<lparr>srcObject = None\<rparr>)
          else None)\<rparr>"

subsection \<open>Model Loader\<close>

text \<open>
  The effect that loads the model. Whichever awaited step fails (\<^verbatim>\<open>tf.ready\<close>, fetching and
  parsing the artifact, compiling), control reaches the same \<^verbatim>\<open>catch\<close> clause, so one
  failure outcome stands for all of them. The \<^verbatim>\<open>finally\<close> clause runs on both paths.
\<close>

datatype load_outcome = LoadRejects | Loaded layers_model

definition loadModel :: "load_outcome \<Rightarrow> app_state \<Rightarrow> app_state" where
  "loadModel outcome s =
     (let s1 = s\<lparr>isModelLoading := True\<rparr>;
          s2 = (case outcome of
                  Loaded loadedModel \<Rightarrow>
                    s1\<lparr>model := Some loadedModel,
                       console := console s1 @ [ConsoleLog ''Modelo cargado exitosamente'',
                                                ConsoleLog ''Shape de entrada esperado:'']\<rparr>
                | LoadRejects \<Rightarrow>
                    s1\<lparr>console := console s1
                                  @ [ConsoleError ''Error al cargar el modelo:'' ModelLoadError],
                       alerts := alerts s1
                                 @ [''Error al cargar el modelo. Verifica que los archivos est''
                                    @ [CHR 0xE9] @ ''n en /public/model/'']\<rparr>)
      in s2\<lparr>isModelLoading := False\<rparr>)"

subsection \<open>Inference Engine\<close>

text \<open>
  Tensor bookkeeping of the runtime: a new tensor gets the next id and is live until it is
  disposed of.
\<close>

definition alloc :: "app_state \<Rightarrow> nat \<times> app_state" where
  "alloc s = (nextTensor s,
              s\<lparr>liveTensors := liveTensors s @ [nextTensor s], nextTensor := Suc (nextTensor s)\<rparr>)"

definition dispose :: "nat \<Rightarrow> app_state \<Rightarrow> app_state" where
  "dispose t s = s\<lparr>liveTensors := removeAll t (liveTensors s)\<rparr>"

text \<open>
  The body of the \<^verbatim>\<open>try\<close> block of \<^verbatim>\<open>predictImage\<close>. \<open>Inl (e, s')\<close> is an exception
  \<open>e\<close> thrown in state \<open>s'\<close>; what was allocated before the throw stays allocated.
\<close>

definition predictImage_try ::
  "layers_model \<Rightarrow> image_element \<Rightarrow> app_state \<Rightarrow> (exn \<times> app_state) + app_state" where
  "predictImage_try m imageElement s =
     (case preprocessImage imageElement of
        Inl e \<Rightarrow> Inl (e, s)
      | Inr preprocessed \<Rightarrow>
          (let (pre, s1) = alloc s;
               s2 = s1\<lparr>forwardPasses := Suc (forwardPasses s1)\<rparr>
           in case m preprocessed of
                PredictThrows \<Rightarrow> Inl (PredictError, s2)
              | DataRejects \<Rightarrow> (let (out, s3) = alloc s2 in Inl (DataError, s3))
              | Probabilities probabilities \<Rightarrow>
                  (let (out, s3) = alloc s2;
                       maxIndex = indexOf probabilities (Math_max probabilities);
                       conf = times_100 (js_index probabilities maxIndex);
                       s4 = s3\<lparr>prediction :=
                                 Some \<lparr>fruit = js_index FRUIT_CLASSES maxIndex,
                                       confidence = conf\<rparr>\<rparr>;
                       s5 = dispose pre s4;
                       s6 = dispose out s5
                   in Inr s6)))"

text \<open>
  \<^verbatim>\<open>predictImage\<close>. The model is the one the enclosing closure captured, so it is an
  argument. The \<^verbatim>\<open>catch\<close> clause logs and returns.
\<close>

definition predictImage :: "layers_model option \<Rightarrow> image_element \<Rightarrow> app_state \<Rightarrow> app_state" where
  "predictImage mo imageElement s =
     (case mo of
        None \<Rightarrow> s
      | Some m \<Rightarrow>
          (case predictImage_try m imageElement s of
             Inr s' \<Rightarrow> s'
           | Inl (e, s') \<Rightarrow>
               s'\<lparr>console := console s'
                             @ [ConsoleError (''Error en la predicci'' @ [CHR 0xF3] @ ''n:'') e]\<rparr>))"

subsection \<open>Capture Orchestrator\<close>

text \<open>
  \<^verbatim>\<open>startWebcam\<close> is asynchronous. The call itself runs up to \<^verbatim>\<open>await getUserMedia(...)\<close>
  and is suspended there: the request is pending, together with the \<^verbatim>\<open>model\<close> that the
  closure captured. Nothing else has changed by then; in particular \<^verbatim>\<open>webcamActive\<close> is
  what it was, so a start button that was rendered stays rendered.
\<close>

definition startWebcam :: "app_state \<Rightarrow> app_state" where
  "startWebcam s = s\<lparr>pendingStarts := pendingStarts s @ [model s]\<rparr>"

text \<open>
  When the promise of the \<open>k\<close>-th suspended call settles, the rest of the function runs as
  one step. \<^verbatim>\<open>getUserMedia\<close> either rejects or resolves to a stream of freshly opened
  tracks. \<^verbatim>\<open>window.setInterval\<close> returns a handle greater than zero that was not used
  before. Neither the handle already in \<^verbatim>\<open>intervalRef\<close> nor the stream already attached
  is looked at.
\<close>

datatype media_outcome = Denied | Granted nat

definition startWebcam_resume :: "nat \<Rightarrow> media_outcome \<Rightarrow> app_state \<Rightarrow> app_state" where
  "startWebcam_resume k outcome s =
     (if length (pendingStarts s) \<le> k then s
      else
        (let captured = pendingStarts s ! k;
             s0 = s\<lparr>pendingStarts := take k (pendingStarts s) @ drop (Suc k) (pendingStarts s)\<rparr>
         in case outcome of
              Denied \<Rightarrow>
                s0\<lparr>console := console s0
                               @ [ConsoleError ''Error al acceder a la webcam:'' CameraAccessError],
                   alerts := alerts s0
                             @ [''No se pudo acceder a la c'' @ [CHR 0xE1]
                                @ ''mara. Verifica los permisos.'']\<rparr>
            | Granted n \<Rightarrow>
                (let stream = [nextTrack s0..<nextTrack s0 + n];
                     s1 = s0\<lparr>liveTracks := liveTracks s0 @ stream,
                             nextTrack := nextTrack s0 + n\<rparr>
                 in case videoRef s1 of
                      None \<Rightarrow> s1
                    | Some v \<Rightarrow>
                        (let s2 = s1\<lparr>videoRef := Some (v\<lparr>srcObject := Some stream\<rparr>),
                                     webcamActive := True\<rparr>;
                             h = Suc (nextTimer s2)
                         in s2\<lparr>timers := timers s2 @ [(h, captured)], nextTimer := h,
                               intervalRef := Some h\<rparr>))))"

definition stopWebcam :: "app_state \<Rightarrow> app_state" where
  "stopWebcam s =
     (let s1 = (case videoRef s of
                  None \<Rightarrow> s
                | Some v \<Rightarrow>
                    (case srcObject v of
                       None \<Rightarrow> s
                     | Some stream \<Rightarrow>
                         s\<lparr>liveTracks := filter (\<lambda>t. t \<notin> set stream) (liveTracks s),
                           videoRef := Some (v\<lparr>srcObject := None\<rparr>)\<rparr>));
          s2 = (case intervalRef s1 of
                  None \<Rightarrow> s1
                | Some h \<Rightarrow>
                    if h \<noteq> 0
                    then s1\<lparr>timers := filter (\<lambda>p. fst p \<noteq> h) (timers s1), intervalRef := None\<rparr>
                    else s1)
      in s2\<lparr>webcamActive := False, prediction := None\<rparr>)"

text \<open>One firing of the interval callback registered under handle \<open>h\<close>, on the current frame.\<close>

definition intervalTick :: "nat \<Rightarrow> image_element \<Rightarrow> app_state \<Rightarrow> app_state" where
  "intervalTick h frame s =
     (case map_of (timers s) h of
        None \<Rightarrow> s
      | Some m \<Rightarrow> if present (videoRef s) \<and> present m then predictImage m frame s else s)"

text \<open>
  \<^verbatim>\<open>handleImageUpload\<close>: no file selected, a file that does not decode (neither callback
  fires), or a file that decodes to an image with its data URL.
\<close>

datatype upload_event = NoFile | Undecodable | Decoded string image_element

definition handleImageUpload :: "upload_event \<Rightarrow> app_state \<Rightarrow> app_state" where
  "handleImageUpload ev s =
     (case ev of
        NoFile \<Rightarrow> s
      | Undecodable \<Rightarrow> s
      | Decoded url img \<Rightarrow> predictImage (model s) img (s\<lparr>imagePreview := Some url\<rparr>))"

subsection \<open>Runs of the component\<close>

text \<open>
  What can happen to the mounted component, one step at a time: the user clicks start or
  stop, a pending camera request settles, a timer fires, a file is chosen, or
  \<^verbatim>\<open>predictImage\<close> is called with the current model. Every step is followed by a render.
\<close>

datatype action =
  StartWebcam
| MediaSettles nat media_outcome
| StopWebcam
| Tick nat image_element
| Upload upload_event
| Predict image_element

fun step :: "action \<Rightarrow> app_state \<Rightarrow> app_state" where
  "step StartWebcam s = render (startWebcam s)"
| "step (MediaSettles k outcome) s = render (startWebcam_resume k outcome s)"
| "step StopWebcam s = render (stopWebcam s)"
| "step (Tick h frame) s = render (intervalTick h frame s)"
| "step (Upload ev) s = render (handleImageUpload ev s)"
| "step (Predict img) s = render (predictImage (model s) img s)"

fun run :: "action list \<Rightarrow> app_state \<Rightarrow> app_state" where
  "run [] s = s"
| "run (a # as) s = run as (step a s)"

text \<open>Mounting the component: the initial render, then the model-loading effect.\<close>

definition mount :: "load_outcome \<Rightarrow> app_state" where
  "mount outcome = render (loadModel outcome (render initial_state))"

subsection \<open>Presentation Layer\<close>

text \<open>The confidence line of the result card: \<^verbatim>\<open>Confianza: {prediction.confidence.toFixed(2)}%\<close>.\<close>

definition confidence_text :: "Prediction \<Rightarrow> string option" where
  "confidence_text p = (case toFixed2 (confidence p) of
                          None \<Rightarrow> None
                        | Some digits \<Rightarrow> Some (''Confianza: '' @ digits @ ''%''))"

section \<open>Fixtures for concrete runs\<close>

text \<open>
  A one-pixel red image, an image of four different pixels, a model mock with fixed scores,
  and a model whose forward pass throws.
\<close>

definition one_pixel :: image_element where
  "one_pixel = \<lparr>elemWidth = 1, elemHeight = 1, rgba = [255, 0, 0, 255]\<rparr>"

definition four_pixels :: image_element where
  "four_pixels = \<lparr>elemWidth = 2, elemHeight = 2,
                   rgba = [100, 0, 0, 255,  0, 255, 0, 255,  0, 0, 255, 255,  10, 20, 30, 255]\<rparr>"

definition mock_model :: layers_model where
  "mock_model t = Probabilities [Fin (1 / 10), Fin (7 / 10), Fin (2 / 10)]"

text \<open>The same mock with its scores rounded to single precision, as a \<^verbatim>\<open>Float32Array\<close> holds them.\<close>

definition mock_model_f32 :: layers_model where
  "mock_model_f32 t = Probabilities [Fin (13421773 / 134217728), Fin (11744051 / 16777216),
                                     Fin (13421773 / 67108864)]"

definition throwing_model :: layers_model where
  "throwing_model t = PredictThrows"

definition apple_90 :: Prediction where
  "apple_90 = \<lparr>fruit = Some ''Manzana'', confidence = Fin 90\<rparr>"

definition load_alert :: string where
  "load_alert = ''Error al cargar el modelo. Verifica que los archivos est'' @ [CHR 0xE9]
                @ ''n en /public/model/''"

text \<open>
  The component after one upload with the mock model; after one granted start; and after
  two clicks on the start button made before the first camera request settled, both granted.
\<close>

definition uploaded_state :: app_state where
  "uploaded_state =
     run [Upload (Decoded ''data:image/png;base64,'' one_pixel)] (mount (Loaded mock_model))"

definition streaming_state :: app_state where
  "streaming_state = run [StartWebcam, MediaSettles 0 (Granted 1)] (mount (Loaded mock_model))"

definition double_start_state :: app_state where
  "double_start_state =
     run [StartWebcam, StartWebcam, MediaSettles 0 (Granted 1), MediaSettles 0 (Granted 1)]
       (mount (Loaded mock_model))"

section \<open>State predicates\<close>

text \<open>
  A valid visual source: non-empty, width and height within the 32 bits that an element's
  dimensions have, four bytes per pixel, every byte in the native range \<open>0..255\<close>.
\<close>

definition valid_image :: "image_element \<Rightarrow> bool" where
  "valid_image el =
     (0 < elemWidth el \<and> elemWidth el < 2 ^ 32 \<and> 0 < elemHeight el \<and> elemHeight el < 2 ^ 32
      \<and> length (rgba el) = elemHeight el * elemWidth el * 4
      \<and> list_all (\<lambda>b. b \<le> 255) (rgba el))"

text \<open>
  What the resized image is meant to hold, in exact arithmetic: the byte of a source pixel,
  and the bilinear sample of the source at position \<open>(r, c)\<close> of the
  \<^verbatim>\<open>IMAGE_SIZE\<close> by \<^verbatim>\<open>IMAGE_SIZE\<close> grid.
\<close>

definition pixel_byte :: "image_element \<Rightarrow> nat \<Rightarrow> nat \<Rightarrow> nat \<Rightarrow> real" where
  "pixel_byte el row col ch = real (rgba el ! ((row * elemWidth el + col) * 4 + ch))"

definition resized_value :: "image_element \<Rightarrow> nat \<Rightarrow> nat \<Rightarrow> nat \<Rightarrow> real" where
  "resized_value el r c ch =
     (let y = real (elemHeight el) * real r / real IMAGE_SIZE;
          x = real (elemWidth el) * real c / real IMAGE_SIZE;
          y0 = nat \<lfloor>y\<rfloor>; y1 = min (elemHeight el - 1) (nat \<lceil>y\<rceil>);
          x0 = nat \<lfloor>x\<rfloor>; x1 = min (elemWidth el - 1) (nat \<lceil>x\<rceil>);
          top = pixel_byte el y0 x0 ch
                + (pixel_byte el y0 x1 ch - pixel_byte el y0 x0 ch) * (x - real x0);
          bottom = pixel_byte el y1 x0 ch
                   + (pixel_byte el y1 x1 ch - pixel_byte el y1 x0 ch) * (x - real x0)
      in top + (bottom - top) * (y - real y0))"

text \<open>The multiples of \<open>2^-k\<close>.\<close>

definition on_grid :: "nat \<Rightarrow> real \<Rightarrow> bool" where
  "on_grid k x = (\<exists>n::int. x = of_int n / 2 ^ k)"

text \<open>A probability vector over the label set: one finite score in \<open>[0, 1]\<close> per label.\<close>

definition probability_vector :: "number list \<Rightarrow> bool" where
  "probability_vector ps =
     (length ps = length FRUIT_CLASSES
      \<and> list_all (\<lambda>p. case p of Fin r \<Rightarrow> 0 \<le> r \<and> r \<le> 1 | _ \<Rightarrow> False) ps)"

text \<open>
  No model anywhere: the state holds none, and no timer callback and no suspended call
  captured one.
\<close>

definition no_model :: "app_state \<Rightarrow> bool" where
  "no_model s = (\<not> present (model s) \<and> list_all (\<lambda>p. \<not> present (snd p)) (timers s)
                 \<and> list_all (\<lambda>m. \<not> present m) (pendingStarts s))"

text \<open>No timer handle is held and no stream is attached to the video element.\<close>

definition at_rest :: "app_state \<Rightarrow> bool" where
  "at_rest s = (intervalRef s = None
                \<and> (case videoRef s of None \<Rightarrow> True | Some v \<Rightarrow> srcObject v = None))"

definition session_inv :: "app_state \<Rightarrow> bool" where
  "session_inv s = (intervalRef s \<noteq> Some 0 \<and> (webcamActive s \<or> at_rest s))"

section \<open>Properties of the Inference Engine\<close>

lemmas predict_defs = predictImage_def predictImage_try_def alloc_def dispose_def Let_def

lemma preprocessImage_Inr:
  assumes "0 < elemWidth el" and "0 < elemHeight el"
    and "length (rgba el) = elemHeight el * elemWidth el * 4"
  shows "\<exists>t. preprocessImage el = Inr t"
  using assms by (simp add: preprocessImage_def fromPixels_def resizeBilinear_def Let_def)

lemma preprocess_one_pixel: "\<exists>t. preprocessImage one_pixel = Inr t"
  by (rule preprocessImage_Inr) (simp_all add: one_pixel_def)

lemma present_iff: "present x \<longleftrightarrow> x \<noteq> None"
  by (cases x) simp_all

lemma predictImage_None: "predictImage None el s = s"
  by (simp add: predictImage_def)

text \<open>What \<^verbatim>\<open>predictImage\<close> never touches, on any path.\<close>

lemma predictImage_frame:
  "model (predictImage mo el s) = model s"
  "isModelLoading (predictImage mo el s) = isModelLoading s"
  "webcamActive (predictImage mo el s) = webcamActive s"
  "imagePreview (predictImage mo el s) = imagePreview s"
  "videoRef (predictImage mo el s) = videoRef s"
  "intervalRef (predictImage mo el s) = intervalRef s"
  "pendingStarts (predictImage mo el s) = pendingStarts s"
  "timers (predictImage mo el s) = timers s"
  "nextTimer (predictImage mo el s) = nextTimer s"
  "liveTracks (predictImage mo el s) = liveTracks s"
  "nextTrack (predictImage mo el s) = nextTrack s"
  "alerts (predictImage mo el s) = alerts s"
  by (simp_all add: predict_defs
      split: option.splits sum.splits forward_result.splits prod.splits)

text \<open>
  On the path where the scores arrive, both tensors are released: the set of allocated
  tensors is what it was before the call.
\<close>

lemma predictImage_releases_on_success:
  assumes "\<forall>t \<in> set (liveTensors s). t < nextTensor s"
    and "preprocessImage el = Inr t" and "m t = Probabilities ps"
  shows "liveTensors (predictImage (Some m) el s) = liveTensors s"
proof -
  have a: "nextTensor s \<notin> set (liveTensors s)" using assms(1) by auto
  have b: "Suc (nextTensor s) \<notin> set (liveTensors s)" using assms(1) by auto
  show ?thesis using assms(2,3) a b
    by (simp add: predict_defs)
qed

text \<open>When the forward pass throws, the input tensor stays allocated; when reading the
  output fails, both stay allocated.\<close>

lemma predictImage_leaks_input:
  assumes "preprocessImage el = Inr t" and "m t = PredictThrows"
  shows "liveTensors (predictImage (Some m) el s) = liveTensors s @ [nextTensor s]"
  using assms by (simp add: predict_defs)

lemma predictImage_leaks_both:
  assumes "preprocessImage el = Inr t" and "m t = DataRejects"
  shows "liveTensors (predictImage (Some m) el s)
         = liveTensors s @ [nextTensor s, Suc (nextTensor s)]"
  using assms by (simp add: predict_defs)

text \<open>
  Claim C3. With a model present, the preprocessed input tensor and the output tensor
  would both have to be released on every path of \<^verbatim>\<open>predictImage\<close>, error paths
  included. The two \<^verbatim>\<open>dispose\<close> calls are the last statements of the \<^verbatim>\<open>try\<close> block, so
  a forward pass that throws skips them: starting from a freshly mounted component with no
  tensor allocated, one call with a throwing model leaves tensor \<open>0\<close>, the preprocessed
  input, allocated.
\<close>

theorem predictImage_leaks_on_throw:
  "liveTensors (mount (Loaded throwing_model)) = []
   \<and> liveTensors (predictImage (Some throwing_model) one_pixel (mount (Loaded throwing_model)))
     = [0]"
proof -
  obtain t where t: "preprocessImage one_pixel = Inr t"
    using preprocess_one_pixel by blast
  show ?thesis using t
    by (simp add: predict_defs throwing_model_def mount_def render_def loadModel_def
        initial_state_def)
qed

text \<open>
  Claim C9. When the forward pass fails (the call to \<^verbatim>\<open>predict\<close> throws, or reading the
  output is rejected), \<^verbatim>\<open>predictImage\<close> still returns a state: the error is logged to the
  console with the message of the \<^verbatim>\<open>catch\<close> clause, no alert is shown, the current
  Prediction is the one from before the call, and the model, the webcam flag, the timer
  handle and the active timers are unchanged, so the sampling loop goes on.
\<close>

theorem predictImage_catches_inference_error:
  assumes "preprocessImage el = Inr t" and "m t = PredictThrows \<or> m t = DataRejects"
  shows "prediction (predictImage (Some m) el s) = prediction s
    \<and> (\<exists>e. console (predictImage (Some m) el s)
           = console s @ [ConsoleError (''Error en la predicci'' @ [CHR 0xF3] @ ''n:'') e])
    \<and> alerts (predictImage (Some m) el s) = alerts s
    \<and> model (predictImage (Some m) el s) = model s
    \<and> webcamActive (predictImage (Some m) el s) = webcamActive s
    \<and> intervalRef (predictImage (Some m) el s) = intervalRef s
    \<and> timers (predictImage (Some m) el s) = timers s"
  using assms by (auto simp add: predict_defs)

theorem predictImage_catches_inference_error_witness:
  "prediction (predictImage (Some throwing_model) one_pixel
                 ((mount (Loaded throwing_model))\<lparr>prediction := Some apple_90\<rparr>))
   = Some apple_90"
proof -
  obtain t where t: "preprocessImage one_pixel = Inr t"
    using preprocess_one_pixel by blast
  have "throwing_model t = PredictThrows \<or> throwing_model t = DataRejects"
    by (simp add: throwing_model_def)
  from predictImage_catches_inference_error [of one_pixel t throwing_model, OF t this]
  show ?thesis by simp
qed

text \<open>
  Claim C10. A call to \<^verbatim>\<open>predictImage\<close>, whatever the captured model, the image and the
  state, and whether it returns early, succeeds or fails, leaves the model handle, the
  webcam-active flag, the timer handle and the preview image as they were; the same holds
  for the loading flag, the video ref, the active timers and the camera tracks.
\<close>

theorem predictImage_changes_only_prediction:
  "model (predictImage mo el s) = model s
   \<and> webcamActive (predictImage mo el s) = webcamActive s
   \<and> intervalRef (predictImage mo el s) = intervalRef s
   \<and> imagePreview (predictImage mo el s) = imagePreview s
   \<and> isModelLoading (predictImage mo el s) = isModelLoading s
   \<and> videoRef (predictImage mo el s) = videoRef s
   \<and> timers (predictImage mo el s) = timers s
   \<and> liveTracks (predictImage mo el s) = liveTracks s"
  by (simp add: predict_defs split: option.splits sum.splits forward_result.splits prod.splits)

lemma mock_prediction:
  assumes "preprocessImage el = Inr t"
  shows "prediction (predictImage (Some mock_model) el s)
         = Some \<lparr>fruit = Some (''Pl'' @ [CHR 0xE1] @ ''tano''), confidence = Fin 70\<rparr>"
  using assms
  by (simp add: predict_defs mock_model_def Math_max_def indexOf_def js_index_def
      FRUIT_CLASSES_def)

subsection \<open>The selected class\<close>

text \<open>On finite scores \<^verbatim>\<open>Math.max\<close> is the largest of them, and it is one of them.\<close>

lemma foldl_max2_Fin: "foldl max2 (Fin a) (map Fin rs) = Fin (foldl max a rs)"
  by (induction rs arbitrary: a) simp_all

lemma foldl_max_ge: "(a::real) \<le> foldl max a rs \<and> (\<forall>r \<in> set rs. r \<le> foldl max a rs)"
proof (induction rs arbitrary: a)
  case Nil
  then show ?case by simp
next
  case (Cons x xs)
  have "max a x \<le> foldl max (max a x) xs" using Cons.IH by blast
  then show ?case using Cons.IH [of "max a x"] by auto
qed

lemma foldl_max_mem: "foldl max (a::real) rs \<in> set (a # rs)"
proof (induction rs arbitrary: a)
  case Nil
  then show ?case by simp
next
  case (Cons x xs)
  show ?case using Cons.IH [of "max a x"] by (auto simp add: max_def split: if_splits)
qed

lemma Math_max_Fin:
  assumes "rs \<noteq> []"
  shows "\<exists>M. Math_max (map Fin rs) = Fin M \<and> M \<in> set rs \<and> (\<forall>r \<in> set rs. r \<le> M)"
proof -
  obtain x xs where rs: "rs = x # xs" using assms by (cases rs) auto
  have m: "Math_max (map Fin rs) = Fin (foldl max x xs)"
    by (simp add: Math_max_def rs foldl_max2_Fin)
  show ?thesis using m foldl_max_ge [of x xs] foldl_max_mem [of x xs] by (auto simp add: rs)
qed

text \<open>\<^verbatim>\<open>indexOf\<close> finds the first position that holds the value.\<close>

lemma indexOf_from_first:
  assumes "M \<in> set rs"
  shows "\<exists>i<length rs. indexOf_from (map Fin rs) (Fin M) k = k + int i
           \<and> rs ! i = M \<and> (\<forall>j<i. rs ! j \<noteq> M)"
  using assms
proof (induction rs arbitrary: k)
  case Nil
  then show ?case by simp
next
  case (Cons x xs)
  show ?case
  proof (cases "x = M")
    case True
    then show ?thesis by (intro exI [of _ 0]) simp
  next
    case False
    then have "M \<in> set xs" using Cons.prems by simp
    from Cons.IH [OF this, of "k + 1"]
    obtain i where i: "i < length xs" "indexOf_from (map Fin xs) (Fin M) (k + 1) = k + 1 + int i"
      "xs ! i = M" "\<forall>j<i. xs ! j \<noteq> M" by blast
    have "\<forall>j<Suc i. (x # xs) ! j \<noteq> M"
      using False i(4) by (auto simp add: less_Suc_eq_0_disj)
    then show ?thesis using False i by (intro exI [of _ "Suc i"]) simp
  qed
qed

lemma argmax_first:
  assumes "rs \<noteq> []"
  shows "\<exists>i<length rs. indexOf (map Fin rs) (Math_max (map Fin rs)) = int i
           \<and> (\<forall>j<length rs. rs ! j \<le> rs ! i) \<and> (\<forall>j<i. rs ! j < rs ! i)"
proof -
  obtain M where M: "Math_max (map Fin rs) = Fin M" "M \<in> set rs" "\<forall>r \<in> set rs. r \<le> M"
    using Math_max_Fin [OF assms] by blast
  obtain i where i: "i < length rs" "indexOf_from (map Fin rs) (Fin M) 0 = 0 + int i"
      "rs ! i = M" "\<forall>j<i. rs ! j \<noteq> M"
    using indexOf_from_first [OF M(2), of 0] by blast
  have "\<forall>j<length rs. rs ! j \<le> rs ! i" using M(3) i(3) by simp
  moreover have "\<forall>j<i. rs ! j < rs ! i"
  proof (intro allI impI)
    fix j assume "j < i"
    then have "rs ! j \<noteq> M" "rs ! j \<le> M" using i(1,4) M(3) by auto
    then show "rs ! j < rs ! i" using i(3) by simp
  qed
  ultimately show ?thesis using i(1,2) M(1) by (auto simp add: indexOf_def)
qed

lemma predictImage_argmax:
  assumes "preprocessImage el = Inr t" and "m t = Probabilities (map Fin rs)"
    and "rs \<noteq> []" and "length rs \<le> length FRUIT_CLASSES"
  shows "\<exists>i<length rs. (\<forall>j<length rs. rs ! j \<le> rs ! i) \<and> (\<forall>j<i. rs ! j < rs ! i)
           \<and> prediction (predictImage (Some m) el s)
             = Some \<lparr>fruit = Some (FRUIT_CLASSES ! i), confidence = Fin (rs ! i * 100)\<rparr>"
proof -
  obtain i where i: "i < length rs" "indexOf (map Fin rs) (Math_max (map Fin rs)) = int i"
      "\<forall>j<length rs. rs ! j \<le> rs ! i" "\<forall>j<i. rs ! j < rs ! i"
    using argmax_first [OF assms(3)] by blast
  have "prediction (predictImage (Some m) el s)
        = Some \<lparr>fruit = Some (FRUIT_CLASSES ! i), confidence = Fin (rs ! i * 100)\<rparr>"
    using assms(1,2,4) i(1,2) by (simp add: predict_defs js_index_def)
  then show ?thesis using i by blast
qed

text \<open>
  Claim C1. When the forward pass yields finite scores, at least one and no more than there
  are labels, \<^verbatim>\<open>predictImage\<close> sets a Prediction for the index \<open>i\<close> whose score is maximal
  and strictly above every score before it (the first maximum in label order): the label
  is \<^verbatim>\<open>FRUIT_CLASSES[i]\<close> and the confidence is the score times \<open>100\<close>. For the scores
  \<open>[0.1, 0.7, 0.2]\<close> the Prediction is the second label with confidence \<open>70\<close>, shown as
  \<open>70.00%\<close>.
\<close>

theorem predictImage_selects_first_maximum:
  assumes "preprocessImage el = Inr t"
  shows "(m t = Probabilities (map Fin rs) \<and> rs \<noteq> [] \<and> length rs \<le> length FRUIT_CLASSES \<longrightarrow>
          (\<exists>i<length rs. (\<forall>j<length rs. rs ! j \<le> rs ! i) \<and> (\<forall>j<i. rs ! j < rs ! i)
             \<and> prediction (predictImage (Some m) el s)
               = Some \<lparr>fruit = Some (FRUIT_CLASSES ! i), confidence = Fin (rs ! i * 100)\<rparr>))
       \<and> (m t = Probabilities [Fin (1 / 10), Fin (7 / 10), Fin (2 / 10)] \<longrightarrow>
          (\<exists>p. prediction (predictImage (Some m) el s) = Some p
             \<and> fruit p = Some (FRUIT_CLASSES ! 1) \<and> confidence p = Fin 70
             \<and> confidence_text p = Some ''Confianza: 70.00%''))"
proof (intro conjI impI)
  assume "m t = Probabilities (map Fin rs) \<and> rs \<noteq> [] \<and> length rs \<le> length FRUIT_CLASSES"
  then show "\<exists>i<length rs. (\<forall>j<length rs. rs ! j \<le> rs ! i) \<and> (\<forall>j<i. rs ! j < rs ! i)
             \<and> prediction (predictImage (Some m) el s)
               = Some \<lparr>fruit = Some (FRUIT_CLASSES ! i), confidence = Fin (rs ! i * 100)\<rparr>"
    using predictImage_argmax [OF assms, of m rs s] by blast
next
  assume "m t = Probabilities [Fin (1 / 10), Fin (7 / 10), Fin (2 / 10)]"
  then have "prediction (predictImage (Some m) el s)
      = Some \<lparr>fruit = Some (FRUIT_CLASSES ! 1), confidence = Fin 70\<rparr>"
    using assms
    by (simp add: predict_defs Math_max_def indexOf_def js_index_def FRUIT_CLASSES_def)
  moreover have "confidence_text \<lparr>fruit = Some (FRUIT_CLASSES ! 1), confidence = Fin 70\<rparr>
      = Some ''Confianza: 70.00%''"
    by (simp add: confidence_text_def digit_char_def)
  ultimately show "\<exists>p. prediction (predictImage (Some m) el s) = Some p
             \<and> fruit p = Some (FRUIT_CLASSES ! 1) \<and> confidence p = Fin 70
             \<and> confidence_text p = Some ''Confianza: 70.00%''"
    by simp
qed

theorem predictImage_selects_first_maximum_witness:
  "(\<exists>i<3. (\<forall>j<3. [1 / 10, 7 / 10, 2 / 10 :: real] ! j \<le> [1 / 10, 7 / 10, 2 / 10] ! i)
       \<and> prediction (predictImage (Some mock_model) one_pixel (mount (Loaded mock_model)))
         = Some \<lparr>fruit = Some (FRUIT_CLASSES ! i),
                  confidence = Fin ([1 / 10, 7 / 10, 2 / 10] ! i * 100)\<rparr>)
   \<and> (\<exists>p. prediction (predictImage (Some mock_model) one_pixel (mount (Loaded mock_model)))
           = Some p
         \<and> fruit p = Some (''Pl'' @ [CHR 0xE1] @ ''tano'') \<and> confidence p = Fin 70
         \<and> confidence_text p = Some ''Confianza: 70.00%'')"
proof -
  obtain t where t: "preprocessImage one_pixel = Inr t"
    using preprocess_one_pixel by blast
  have m: "mock_model t = Probabilities [Fin (1 / 10), Fin (7 / 10), Fin (2 / 10)]"
    by (simp add: mock_model_def)
  have h: "mock_model t = Probabilities (map Fin [1 / 10, 7 / 10, 2 / 10])
      \<and> [1 / 10, 7 / 10, 2 / 10 :: real] \<noteq> []
      \<and> length [1 / 10, 7 / 10, 2 / 10 :: real] \<le> length FRUIT_CLASSES"
    by (simp add: mock_model_def FRUIT_CLASSES_def)
  have l: "length [1 / 10, 7 / 10, 2 / 10 :: real] = 3" by simp
  have f: "FRUIT_CLASSES ! 1 = ''Pl'' @ [CHR 0xE1] @ ''tano''" by (simp add: FRUIT_CLASSES_def)
  from predictImage_selects_first_maximum
    [OF t, of mock_model "[1 / 10, 7 / 10, 2 / 10]" "mount (Loaded mock_model)"] h m
  show ?thesis unfolding l f by blast
qed

text \<open>
  With the scores as single-precision values the confidence is a little under \<open>70\<close> and is
  shown as \<open>70.00%\<close> all the same; on a tie the earlier label wins.
\<close>

lemma mock_f32_prediction:
  assumes "preprocessImage el = Inr t"
  shows "\<exists>p. prediction (predictImage (Some mock_model_f32) el s) = Some p
      \<and> fruit p = Some (FRUIT_CLASSES ! 1) \<and> confidence p = Fin (11744051 / 16777216 * 100)
      \<and> confidence_text p = Some ''Confianza: 70.00%''"
proof -
  have "prediction (predictImage (Some mock_model_f32) el s)
      = Some \<lparr>fruit = Some (FRUIT_CLASSES ! 1), confidence = Fin (11744051 / 16777216 * 100)\<rparr>"
    using assms
    by (simp add: predict_defs mock_model_f32_def Math_max_def indexOf_def js_index_def FRUIT_CLASSES_def)
  moreover have "confidence_text \<lparr>fruit = Some (FRUIT_CLASSES ! 1), confidence = Fin (11744051 / 16777216 * 100)\<rparr>
      = Some ''Confianza: 70.00%''"
    by (simp add: confidence_text_def digit_char_def)
  ultimately show ?thesis by simp
qed

lemma first_maximum_on_tie:
  assumes "preprocessImage el = Inr t" and "m t = Probabilities [Fin (2 / 5), Fin (2 / 5), Fin (1 / 5)]"
  shows "prediction (predictImage (Some m) el s) = Some \<lparr>fruit = Some ''Manzana'', confidence = Fin 40\<rparr>"
  using assms by (simp add: predict_defs Math_max_def indexOf_def js_index_def FRUIT_CLASSES_def)

text \<open>
  Outside the probability vectors: a NaN among the scores makes \<^verbatim>\<open>indexOf\<close> return \<open>-1\<close>, and a
  fourth score that wins has no label.
\<close>

lemma predictImage_NaN_score:
  assumes "preprocessImage el = Inr t" and "m t = Probabilities [Fin (1 / 2), NaN, Fin (1 / 2)]"
  shows "prediction (predictImage (Some m) el s) = Some \<lparr>fruit = None, confidence = NaN\<rparr>"
  using assms by (simp add: predict_defs Math_max_def indexOf_def js_index_def FRUIT_CLASSES_def)

lemma predictImage_fourth_class:
  assumes "preprocessImage el = Inr t" and "m t = Probabilities [Fin 0, Fin 0, Fin 0, Fin 1]"
  shows "prediction (predictImage (Some m) el s) = Some \<lparr>fruit = None, confidence = Fin 100\<rparr>"
  using assms by (simp add: predict_defs Math_max_def indexOf_def js_index_def FRUIT_CLASSES_def)

lemma probability_vector_Fin:
  assumes "list_all (\<lambda>p. case p of Fin r \<Rightarrow> 0 \<le> r \<and> r \<le> 1 | _ \<Rightarrow> False) ps"
  shows "\<exists>rs. ps = map Fin rs \<and> (\<forall>r \<in> set rs. 0 \<le> r \<and> r \<le> 1)"
  using assms
proof (induction ps)
  case Nil
  then show ?case by simp
next
  case (Cons p ps)
  then obtain rs where rs: "ps = map Fin rs" "\<forall>r \<in> set rs. 0 \<le> r \<and> r \<le> 1" by auto
  obtain r where r: "p = Fin r" "0 \<le> r" "r \<le> 1"
    using Cons.prems by (cases p) auto
  show ?case using rs r by (intro exI [of _ "r # rs"]) simp
qed

text \<open>
  Claim C8. If every array of scores the model produces is a probability vector over the
  label set, then a call to \<^verbatim>\<open>predictImage\<close> either leaves the current Prediction as it was
  (nothing is emitted) or sets one whose label is a member of \<^verbatim>\<open>FRUIT_CLASSES\<close> and whose
  confidence is a finite number between \<open>0\<close> and \<open>100\<close>.
\<close>

theorem prediction_well_formed:
  assumes "\<forall>t ps. m t = Probabilities ps \<longrightarrow> probability_vector ps"
  shows "prediction (predictImage (Some m) el s) = prediction s
    \<or> (\<exists>l c. prediction (predictImage (Some m) el s) = Some \<lparr>fruit = Some l, confidence = Fin c\<rparr>
          \<and> l \<in> set FRUIT_CLASSES \<and> 0 \<le> c \<and> c \<le> 100)"
proof (cases "preprocessImage el")
  case (Inl e)
  then show ?thesis by (simp add: predict_defs)
next
  case (Inr t)
  show ?thesis
  proof (cases "m t")
    case PredictThrows
    then show ?thesis using Inr by (simp add: predict_defs)
  next
    case DataRejects
    then show ?thesis using Inr by (simp add: predict_defs)
  next
    case (Probabilities ps)
    then have pv: "probability_vector ps" using assms by blast
    then obtain rs where rs: "ps = map Fin rs" "\<forall>r \<in> set rs. 0 \<le> r \<and> r \<le> 1"
      using probability_vector_Fin by (auto simp add: probability_vector_def)
    have len: "length rs = length FRUIT_CLASSES" using pv rs(1) by (simp add: probability_vector_def)
    then have ne: "rs \<noteq> []" by (auto simp add: FRUIT_CLASSES_def)
    from predictImage_argmax [OF Inr, of m rs s] Probabilities rs(1) ne len
    obtain i where i: "i < length rs" "prediction (predictImage (Some m) el s)
             = Some \<lparr>fruit = Some (FRUIT_CLASSES ! i), confidence = Fin (rs ! i * 100)\<rparr>"
      by auto
    have "FRUIT_CLASSES ! i \<in> set FRUIT_CLASSES" using i(1) len by simp
    moreover have "0 \<le> rs ! i \<and> rs ! i \<le> 1" using rs(2) i(1) by simp
    then have "0 \<le> rs ! i * 100 \<and> rs ! i * 100 \<le> 100" by simp
    ultimately show ?thesis using i(2) by blast
  qed
qed

theorem prediction_well_formed_witness:
  "\<exists>l c. prediction (predictImage (Some mock_model) one_pixel (mount (Loaded mock_model)))
           = Some \<lparr>fruit = Some l, confidence = Fin c\<rparr>
          \<and> l \<in> set FRUIT_CLASSES \<and> 0 \<le> c \<and> c \<le> 100"
proof -
  have pv: "\<forall>t ps. mock_model t = Probabilities ps \<longrightarrow> probability_vector ps"
    by (auto simp add: mock_model_def probability_vector_def FRUIT_CLASSES_def)
  have "prediction (mount (Loaded mock_model)) = None"
    by (simp add: mount_def render_def loadModel_def initial_state_def)
  moreover obtain t where t: "preprocessImage one_pixel = Inr t"
    using preprocess_one_pixel by blast
  ultimately have "prediction (predictImage (Some mock_model) one_pixel (mount (Loaded mock_model)))
      \<noteq> prediction (mount (Loaded mock_model))"
    using mock_prediction [OF t] by simp
  with prediction_well_formed [OF pv, of one_pixel "mount (Loaded mock_model)"]
  show ?thesis by blast
qed

section \<open>Properties of the Image Preprocessor\<close>

subsection \<open>Rounding\<close>

text \<open>Integers round to themselves, and rounding is monotone at integer bounds.\<close>

lemma round_half_even_of_int: "round_half_even (of_int n) = n"
  by (simp add: round_half_even_def)

lemma round_half_even_nonneg: "0 \<le> x \<Longrightarrow> 0 \<le> round_half_even x"
proof -
  assume "0 \<le> x"
  then have "0 \<le> \<lfloor>x\<rfloor>" by simp
  then show ?thesis by (simp add: round_half_even_def Let_def)
qed

lemma round_half_even_le:
  assumes "x \<le> of_int m"
  shows "round_half_even x \<le> m"
proof (cases "\<lfloor>x\<rfloor> < m")
  case True
  then show ?thesis by (simp add: round_half_even_def Let_def)
next
  case False
  moreover have "\<lfloor>x\<rfloor> \<le> m" using assms by (simp add: floor_le_iff)
  ultimately have f: "\<lfloor>x\<rfloor> = m" by simp
  have "of_int \<lfloor>x\<rfloor> \<le> x" by simp
  then have "x = of_int m" using assms f by simp
  then show ?thesis by (simp add: round_half_even_of_int)
qed

text \<open>The spacing found by the search is the initial one scaled by a power of two.\<close>

lemma quantum_up_form:
  "1 \<le> a \<Longrightarrow> \<exists>j. quantum_up n a q = q * 2 ^ j \<and> 2 ^ j \<le> a"
proof (induction n arbitrary: a q)
  case 0
  then show ?case by (intro exI [of _ 0]) (simp add: quantum_up.simps)
next
  case (Suc n)
  show ?case
  proof (cases "a < 2")
    case True
    then show ?thesis using Suc.prems by (intro exI [of _ 0]) (simp add: quantum_up.simps)
  next
    case False
    then have "1 \<le> a / 2" by simp
    from Suc.IH [OF this, of "2 * q"]
    obtain j where j: "quantum_up n (a / 2) (2 * q) = 2 * q * 2 ^ j" "2 ^ j \<le> a / 2" by blast
    have "quantum_up (Suc n) a q = quantum_up n (a / 2) (2 * q)"
      using False by (simp add: quantum_up.simps [of "Suc n"])
    then show ?thesis using j by (intro exI [of _ "Suc j"]) simp
  qed
qed

lemma quantum_down_form: "\<exists>j. quantum_down n a q = q / 2 ^ j"
proof (induction n arbitrary: a q)
  case 0
  then show ?case by (intro exI [of _ 0]) (simp add: quantum_down.simps)
next
  case (Suc n)
  show ?case
  proof (cases "1 \<le> a")
    case True
    then show ?thesis by (intro exI [of _ 0]) (simp add: quantum_down.simps)
  next
    case False
    obtain j where j: "quantum_down n (2 * a) (q / 2) = q / 2 / 2 ^ j"
      using Suc.IH [of "2 * a" "q / 2"] by blast
    have "quantum_down (Suc n) a q = quantum_down n (2 * a) (q / 2)"
      using False by (simp add: quantum_down.simps [of "Suc n"])
    then show ?thesis using j by (intro exI [of _ "Suc j"]) simp
  qed
qed

lemma quantum_down_ratio:
  "a < 2 \<Longrightarrow> 0 < q \<Longrightarrow> a / quantum_down n a q < 2 / q"
proof (induction n arbitrary: a q)
  case 0
  then show ?case by (simp add: quantum_down.simps divide_strict_right_mono)
next
  case (Suc n)
  show ?case
  proof (cases "1 \<le> a")
    case True
    then show ?thesis using Suc.prems by (simp add: quantum_down.simps divide_strict_right_mono)
  next
    case False
    then have "2 * a < 2" by simp
    moreover have "0 < q / 2" using Suc.prems by simp
    ultimately have "2 * a / quantum_down n (2 * a) (q / 2) < 2 / (q / 2)" by (rule Suc.IH)
    moreover have "quantum_down (Suc n) a q = quantum_down n (2 * a) (q / 2)"
      using False by (simp add: quantum_down.simps [of "Suc n"])
    ultimately show ?thesis by simp
  qed
qed

lemma quantum_down_halved:
  assumes "a < 1" and "0 < n" and "0 < q"
  shows "0 < quantum_down n a q \<and> quantum_down n a q \<le> q / 2"
proof -
  obtain m where m: "n = Suc m" using assms(2) by (cases n) auto
  obtain j where j: "quantum_down m (2 * a) (q / 2) = q / 2 / 2 ^ j"
    using quantum_down_form by blast
  have "quantum_down n a q = quantum_down m (2 * a) (q / 2)"
    using assms(1) by (simp add: m quantum_down.simps [of "Suc m"])
  moreover have "q / 2 / 2 ^ j \<le> q / 2"
    using assms(3) by (simp add: field_simps)
  moreover have "0 < q / 2 / 2 ^ j" using assms(3) by simp
  ultimately show ?thesis using j by simp
qed

text \<open>
  A multiple of \<open>2^-k\<close> that needs no more than \<open>p\<close> bits is representable: rounding
  returns it. Rounding keeps the unit interval.
\<close>

lemma round_float_exact:
  assumes "on_grid k x" and "\<bar>x\<bar> < 2 ^ (p - k)" and "k < p"
  shows "round_float p emax emin x = x"
proof (cases "x = 0")
  case True
  then show ?thesis by (simp add: round_float_def)
next
  case False
  obtain n :: int where n: "x = of_int n / 2 ^ k" using assms(1) by (auto simp add: on_grid_def)
  define a where "a = \<bar>x\<bar>"
  define q0 :: real where "q0 = 1 / 2 ^ (p - 1)"
  define q where "q = (if 1 \<le> a then quantum_up emax a q0 else quantum_down emin a q0)"
  have a: "a = of_int \<bar>n\<bar> / 2 ^ k" by (simp add: a_def n)
  have q0: "0 < q0" by (simp add: q0_def)
  have "\<exists>N::int. a / q = of_int N \<and> 0 < q"
  proof (cases "1 \<le> a")
    case True
    obtain j where j: "quantum_up emax a q0 = q0 * 2 ^ j" "2 ^ j \<le> a"
      using quantum_up_form [OF True] by blast
    have "(2::real) ^ j < 2 ^ (p - k)" using j(2) assms(2) unfolding a_def by (rule le_less_trans)
    then have "j < p - k" by simp
    then have le: "k + j \<le> p - 1" by simp
    have qj: "q = q0 * 2 ^ j" using True j(1) by (simp add: q_def)
    have "(2::real) ^ (p - 1) = 2 ^ (p - 1 - (k + j)) * 2 ^ (k + j)"
      using le by (simp flip: power_add)
    then have "a / q = of_int (\<bar>n\<bar> * 2 ^ (p - 1 - (k + j)))"
      by (simp add: a qj q0_def power_add field_simps)
    moreover have "0 < q" using q0 by (simp add: qj)
    ultimately show ?thesis by blast
  next
    case False
    obtain j where j: "quantum_down emin a q0 = q0 / 2 ^ j"
      using quantum_down_form by blast
    have le: "k \<le> p - 1" using assms(3) by simp
    have qj: "q = q0 / 2 ^ j" using False j by (simp add: q_def)
    have "(2::real) ^ (p - 1) = 2 ^ (p - 1 - k) * 2 ^ k"
      using le by (simp flip: power_add)
    then have "a / q = of_int (\<bar>n\<bar> * 2 ^ (p - 1 - k) * 2 ^ j)"
      by (simp add: a qj q0_def field_simps)
    moreover have "0 < q" using q0 by (simp add: qj)
    ultimately show ?thesis by blast
  qed
  then obtain N :: int where N: "a / q = of_int N" "0 < q" by blast
  have "round_float p emax emin x = sgn x * (q * of_int (round_half_even (a / q)))"
    using False by (simp add: round_float_def Let_def q_def a_def q0_def)
  also have "\<dots> = sgn x * (q * (a / q))" by (simp add: N(1) round_half_even_of_int)
  also have "\<dots> = sgn x * a" using N(2) by simp
  also have "\<dots> = x" by (simp add: a_def sgn_mult_abs)
  finally show ?thesis .
qed

lemma round_float_unit_interval:
  assumes "0 \<le> x" and "x \<le> 1" and "0 < p" and "0 < emin"
  shows "0 \<le> round_float p emax emin x \<and> round_float p emax emin x \<le> 1"
proof -
  consider "x = 0" | "x = 1" | "0 < x" "x < 1" using assms(1,2) by fastforce
  then show ?thesis
  proof cases
    case 1
    then show ?thesis by (simp add: round_float_def)
  next
    case 2
    have "on_grid 0 1" by (simp add: on_grid_def)
    moreover have "\<bar>1::real\<bar> < 2 ^ (p - 0)" using assms(3) by simp
    ultimately have "round_float p emax emin 1 = 1" using assms(3) by (rule round_float_exact)
    then show ?thesis using 2 by simp
  next
    case 3
    define q0 :: real where "q0 = 1 / 2 ^ (p - 1)"
    define q where "q = quantum_down emin x q0"
    define N where "N = round_half_even (x / q)"
    have q0: "0 < q0" by (simp add: q0_def)
    have q: "0 < q" "q \<le> q0 / 2"
      using quantum_down_halved [OF 3(2) assms(4) q0] unfolding q_def by blast+
    have top: "q0 / 2 * of_int (2 ^ p) = 1" "2 / q0 = of_int (2 ^ p)"
      using assms(3) by (cases p; simp add: q0_def)+
    have "x / q < 2 / q0" unfolding q_def using 3(2) q0 by (intro quantum_down_ratio) simp_all
    then have "x / q \<le> of_int (2 ^ p)" using top(2) by simp
    then have up: "N \<le> 2 ^ p" unfolding N_def by (rule round_half_even_le)
    have "0 \<le> x / q" using 3(1) q(1) by simp
    then have lo: "0 \<le> N" unfolding N_def by (rule round_half_even_nonneg)
    have r: "round_float p emax emin x = q * of_int N"
      using 3 by (simp add: round_float_def Let_def q_def q0_def N_def)
    have "q * of_int N \<le> q * of_int (2 ^ p)"
      using up q(1) by (intro mult_left_mono) simp_all
    also have "\<dots> \<le> q0 / 2 * of_int (2 ^ p)"
      using q(2) by (intro mult_right_mono) simp_all
    also have "\<dots> = 1" by (rule top(1))
    finally have "q * of_int N \<le> 1" .
    moreover have "0 \<le> q * of_int N" using lo q(1) by simp
    ultimately show ?thesis using r by simp
  qed
qed

lemma on_grid_of_nat: "on_grid k (real m)"
proof -
  have "real m = of_int (int m * 2 ^ k) / 2 ^ k" by simp
  then show ?thesis unfolding on_grid_def by blast
qed

lemma on_grid_diff: "on_grid k x \<Longrightarrow> on_grid k y \<Longrightarrow> on_grid k (x - y)"
proof -
  assume "on_grid k x" and "on_grid k y"
  then obtain n m :: int where "x = of_int n / 2 ^ k" "y = of_int m / 2 ^ k"
    by (auto simp add: on_grid_def)
  then have "x - y = of_int (n - m) / 2 ^ k" by (simp add: diff_divide_distrib)
  then show ?thesis unfolding on_grid_def by blast
qed

lemma on_grid_add: "on_grid k x \<Longrightarrow> on_grid k y \<Longrightarrow> on_grid k (x + y)"
proof -
  assume "on_grid k x" and "on_grid k y"
  then obtain n m :: int where "x = of_int n / 2 ^ k" "y = of_int m / 2 ^ k"
    by (auto simp add: on_grid_def)
  then have "x + y = of_int (n + m) / 2 ^ k" by (simp add: add_divide_distrib)
  then show ?thesis unfolding on_grid_def by blast
qed

lemma on_grid_mult: "on_grid j x \<Longrightarrow> on_grid k y \<Longrightarrow> on_grid (j + k) (x * y)"
proof -
  assume "on_grid j x" and "on_grid k y"
  then obtain n m :: int where "x = of_int n / 2 ^ j" "y = of_int m / 2 ^ k"
    by (auto simp add: on_grid_def)
  then have "x * y = of_int (n * m) / 2 ^ (j + k)" by (simp add: power_add)
  then show ?thesis unfolding on_grid_def by blast
qed

lemma on_grid_finer: "on_grid j x \<Longrightarrow> on_grid (j + k) x"
proof -
  assume "on_grid j x"
  then obtain n :: int where "x = of_int n / 2 ^ j" by (auto simp add: on_grid_def)
  then have "x = of_int (n * 2 ^ k) / 2 ^ (j + k)" by (simp add: power_add)
  then show ?thesis unfolding on_grid_def by blast
qed

lemma on_grid_div_128: "on_grid 7 (real m / 128)"
proof -
  have "real m / 128 = of_int (int m) / 2 ^ 7" by simp
  then show ?thesis unfolding on_grid_def by blast
qed

lemma to_float64_exact:
  assumes "on_grid k x" and "k \<le> 14" and "\<bar>x\<bar> \<le> 2 ^ 32"
  shows "to_float64 x = x"
proof -
  have "(2::real) ^ 32 < 2 ^ 39" by simp
  also have "(2::real) ^ 39 \<le> 2 ^ (53 - k)" using assms(2) by (intro power_increasing) simp_all
  finally have "\<bar>x\<bar> < 2 ^ (53 - k)" using assms(3) by simp
  moreover have "k < 53" using assms(2) by simp
  ultimately show ?thesis unfolding to_float64_def using assms(1) by (intro round_float_exact)
qed

lemma to_float32_exact:
  assumes "on_grid k x" and "k \<le> 14" and "\<bar>x\<bar> \<le> 255"
  shows "to_float32 x = x"
proof -
  have "(255::real) < 2 ^ 10" by simp
  also have "(2::real) ^ 10 \<le> 2 ^ (24 - k)" using assms(2) by (intro power_increasing) simp_all
  finally have "\<bar>x\<bar> < 2 ^ (24 - k)" using assms(3) by simp
  moreover have "k < 24" using assms(2) by simp
  ultimately show ?thesis unfolding to_float32_def using assms(1) by (intro round_float_exact)
qed

lemma to_float_unit_interval:
  assumes "0 \<le> x" and "x \<le> 1"
  shows "0 \<le> to_float32 (to_float64 x) \<and> to_float32 (to_float64 x) \<le> 1"
proof -
  have "0 \<le> to_float64 x \<and> to_float64 x \<le> 1"
    unfolding to_float64_def using assms by (intro round_float_unit_interval) simp_all
  then show ?thesis
    unfolding to_float32_def by (intro round_float_unit_interval) simp_all
qed

subsection \<open>The kernel on a 128 by 128 target\<close>

text \<open>
  With a target size of \<open>128\<close> the source coordinates are multiples of \<open>1/128\<close>, so
  they and their fractional parts are computed without rounding.
\<close>

lemma source_coord_128:
  assumes "old < 2 ^ 32" and "k < 128"
  shows "source_coord old 128 k = real old * real k / 128"
proof -
  have o: "real old < 2 ^ 32" using assms(1) by (metis of_nat_less_iff of_nat_numeral of_nat_power)
  have a: "to_float64 (real old / 128) = real old / 128"
    using o by (intro to_float64_exact [of 7]) (simp_all add: on_grid_div_128)
  have b: "to_float64 (real old * real k / 128) = real old * real k / 128"
  proof (rule to_float64_exact [of 7])
    have "real old * real k / 128 = real (old * k) / 128" by simp
    then show "on_grid 7 (real old * real k / 128)"
      using on_grid_div_128 [of "old * k"] by simp
    have "real old * real k \<le> real old * 128"
      using assms(2) by (intro mult_left_mono) simp_all
    then show "\<bar>real old * real k / 128\<bar> \<le> 2 ^ 32" using o by simp
  qed simp
  show ?thesis by (simp add: source_coord_def a b)
qed

lemma src_floor_128:
  assumes "old < 2 ^ 32" and "k < 128"
  shows "src_floor old 128 k = nat \<lfloor>real old * real k / 128\<rfloor>"
  by (simp add: src_floor_def source_coord_128 [OF assms])

lemma src_ceil_128:
  assumes "old < 2 ^ 32" and "k < 128" and "0 < old"
  shows "src_ceil old 128 k = min (old - 1) (nat \<lceil>real old * real k / 128\<rceil>)"
proof -
  define c where "c = \<lceil>real old * real k / 128\<rceil>"
  have "\<lceil>0::real\<rceil> \<le> \<lceil>real old * real k / 128\<rceil>" by (rule ceiling_mono) simp
  then have "0 \<le> c" unfolding c_def by (simp only: ceiling_zero)
  then have "nat (min (int old - 1) c) = min (old - 1) (nat c)"
    using assms(3) by arith
  then show ?thesis
    by (simp add: src_ceil_def source_coord_128 [OF assms(1,2)] c_def)
qed

lemma src_frac_128:
  assumes "old < 2 ^ 32" and "k < 128"
  shows "src_frac old 128 k = real old * real k / 128 - real (nat \<lfloor>real old * real k / 128\<rfloor>)"
    and "on_grid 7 (src_frac old 128 k)"
    and "0 \<le> src_frac old 128 k" and "src_frac old 128 k \<le> 1"
proof -
  let ?x = "real old * real k / 128"
  let ?d = "?x - real (nat \<lfloor>?x\<rfloor>)"
  have x: "0 \<le> ?x" by simp
  then have fl: "real (nat \<lfloor>?x\<rfloor>) = of_int \<lfloor>?x\<rfloor>" by simp
  have rng: "0 \<le> ?d" "?d \<le> 1" unfolding fl by linarith+
  have "?x = real (old * k) / 128" by simp
  then have "on_grid 7 ?x" using on_grid_div_128 [of "old * k"] by simp
  then have g: "on_grid 7 ?d" using on_grid_of_nat by (intro on_grid_diff)
  have "to_float64 ?d = ?d" using g rng by (intro to_float64_exact [of 7]) simp_all
  then show e: "src_frac old 128 k = ?d"
    by (simp add: src_frac_def source_coord_128 [OF assms] src_floor_128 [OF assms])
  show "on_grid 7 (src_frac old 128 k)" "0 \<le> src_frac old 128 k" "src_frac old 128 k \<le> 1"
    using g rng unfolding e by simp_all
qed

text \<open>
  An interpolated value lies between its end points. Between bytes, or between values
  that are multiples of \<open>1/128\<close>, the three operations of one interpolation are exact.
\<close>

lemma lerp_bounds:
  fixes a b f lo hi :: real
  assumes "lo \<le> a" "a \<le> hi" "lo \<le> b" "b \<le> hi" "0 \<le> f" "f \<le> 1"
  shows "lo \<le> a + (b - a) * f \<and> a + (b - a) * f \<le> hi"
proof -
  have e: "a + (b - a) * f = (1 - f) * a + f * b" by (simp add: algebra_simps)
  have "(1 - f) * lo \<le> (1 - f) * a" "f * lo \<le> f * b"
    using assms by (simp_all add: mult_left_mono)
  then have l: "(1 - f) * lo + f * lo \<le> (1 - f) * a + f * b" by simp
  have "(1 - f) * a \<le> (1 - f) * hi" "f * b \<le> f * hi"
    using assms by (simp_all add: mult_left_mono)
  then have u: "(1 - f) * a + f * b \<le> (1 - f) * hi + f * hi" by simp
  have "(1 - f) * lo + f * lo = lo" "(1 - f) * hi + f * hi = hi" by (simp_all add: algebra_simps)
  then show ?thesis using l u e by simp
qed

lemma lerp_exact:
  assumes "on_grid j a" and "on_grid j b" and "on_grid 7 f" and "j \<le> 7"
    and "0 \<le> a" "a \<le> 255" "0 \<le> b" "b \<le> 255" "0 \<le> f" "f \<le> 1"
  shows "to_float64 (a + to_float64 (to_float64 (b - a) * f)) = a + (b - a) * f"
    and "on_grid (j + 7) (a + (b - a) * f)"
    and "0 \<le> a + (b - a) * f" and "a + (b - a) * f \<le> 255"
proof -
  have k: "j \<le> 14" "j + 7 \<le> 14" using assms(4) by simp_all
  have d: "on_grid j (b - a)" using assms(1,2) by (intro on_grid_diff)
  have db: "\<bar>b - a\<bar> \<le> 255" using assms(5-8) by simp
  have 1: "to_float64 (b - a) = b - a"
    by (rule to_float64_exact [OF d k(1)]) (use db in simp)
  have m: "on_grid (j + 7) ((b - a) * f)" using d assms(3) by (rule on_grid_mult)
  have "\<bar>(b - a) * f\<bar> \<le> \<bar>b - a\<bar> * 1"
    unfolding abs_mult using assms(9,10) by (intro mult_left_mono) simp_all
  then have mb: "\<bar>(b - a) * f\<bar> \<le> 255" using db by simp
  have 2: "to_float64 ((b - a) * f) = (b - a) * f"
    by (rule to_float64_exact [OF m k(2)]) (use mb in simp)
  have s: "on_grid (j + 7) (a + (b - a) * f)"
    using on_grid_finer [OF assms(1)] m by (rule on_grid_add)
  have r: "0 \<le> a + (b - a) * f \<and> a + (b - a) * f \<le> 255"
    using assms(5-10) by (intro lerp_bounds)
  have 3: "to_float64 (a + (b - a) * f) = a + (b - a) * f"
    by (rule to_float64_exact [OF s k(2)]) (use r in simp)
  show "to_float64 (a + to_float64 (to_float64 (b - a) * f)) = a + (b - a) * f"
    by (simp add: 1 2 3)
  show "on_grid (j + 7) (a + (b - a) * f)" by (rule s)
  show "0 \<le> a + (b - a) * f" "a + (b - a) * f \<le> 255" using r by simp_all
qed

subsection \<open>The tensors of the pipeline\<close>

lemma length_concat_upt:
  "(\<forall>i<n. length (f i) = k) \<Longrightarrow> length (concat (map f [0..<n])) = n * k"
  by (induction n) simp_all

lemma nth_concat_upt:
  "(\<forall>i<n. length (f i) = k) \<Longrightarrow> i < n \<Longrightarrow> j < k
   \<Longrightarrow> concat (map f [0..<n]) ! (i * k + j) = f i ! j"
proof (induction n)
  case 0
  then show ?case by simp
next
  case (Suc n)
  have len: "length (concat (map f [0..<n])) = n * k"
    using Suc.prems(1) by (intro length_concat_upt) simp
  show ?case
  proof (cases "i < n")
    case True
    have "i * k + j < Suc i * k" using Suc.prems(3) by simp
    also have "\<dots> \<le> n * k" using True by (intro mult_le_mono1) simp
    finally have "i * k + j < n * k" .
    then show ?thesis using Suc.IH Suc.prems True by (simp add: nth_append len)
  next
    case False
    then have "i = n" using Suc.prems(2) by simp
    then show ?thesis by (simp add: nth_append len)
  qed
qed

lemma set_concat_upt:
  "x \<in> set (concat (map f [0..<n])) \<longleftrightarrow> (\<exists>i<n. x \<in> set (f i))"
  by auto

lemma set_map_upt:
  "x \<in> set (map g [0..<n]) \<longleftrightarrow> (\<exists>i<n. x = g i)"
  by auto

lemma cell_index:
  fixes row col w h :: nat
  assumes "row < h" and "col < w"
  shows "row * w + col < h * w"
proof -
  have "row * w + col < Suc row * w" using assms(2) by simp
  also have "\<dots> \<le> h * w" using assms(1) by (intro mult_le_mono1) simp
  finally show ?thesis .
qed

lemma fromPixels_valid:
  assumes "valid_image el"
  shows "\<exists>t. fromPixels el = Inr t \<and> shape t = [elemHeight el, elemWidth el, 3]
           \<and> (\<forall>row<elemHeight el. \<forall>col<elemWidth el. \<forall>ch<3.
                 vals t ! ((row * elemWidth el + col) * 3 + ch) = pixel_byte el row col ch)"
proof -
  let ?h = "elemHeight el" and ?w = "elemWidth el"
  let ?f = "\<lambda>i. map (\<lambda>ch. real (rgba el ! (i * 4 + ch))) [0..<3]"
  have v: "0 < ?w" "0 < ?h" "length (rgba el) = ?h * ?w * 4"
    using assms by (simp_all add: valid_image_def)
  have f: "fromPixels el = Inr \<lparr>shape = [?h, ?w, 3], vals = concat (map ?f [0..<?h * ?w])\<rparr>"
    using v by (simp add: fromPixels_def Let_def)
  have "concat (map ?f [0..<?h * ?w]) ! ((row * ?w + col) * 3 + ch) = pixel_byte el row col ch"
    if "row < ?h" "col < ?w" "ch < 3" for row col ch
  proof -
    have "concat (map ?f [0..<?h * ?w]) ! ((row * ?w + col) * 3 + ch) = ?f (row * ?w + col) ! ch"
      using cell_index [OF that(1,2)] that(3) by (intro nth_concat_upt) simp_all
    then show ?thesis using that(3) by (simp add: pixel_byte_def)
  qed
  then show ?thesis using f by simp
qed

lemma pixel_byte_range:
  assumes "valid_image el" and "row < elemHeight el" and "col < elemWidth el" and "ch < 3"
  shows "0 \<le> pixel_byte el row col ch" and "pixel_byte el row col ch \<le> 255"
    and "on_grid 0 (pixel_byte el row col ch)"
proof -
  have "(row * elemWidth el + col) * 4 + ch < elemHeight el * elemWidth el * 4"
    using cell_index [OF assms(2,3)] assms(4) by simp
  then have "rgba el ! ((row * elemWidth el + col) * 4 + ch) \<in> set (rgba el)"
    using assms(1) by (simp add: valid_image_def)
  then have "rgba el ! ((row * elemWidth el + col) * 4 + ch) \<le> 255"
    using assms(1) by (simp add: valid_image_def list_all_iff)
  then show "pixel_byte el row col ch \<le> 255" by (simp add: pixel_byte_def)
  show "0 \<le> pixel_byte el row col ch" by (simp add: pixel_byte_def)
  show "on_grid 0 (pixel_byte el row col ch)" unfolding pixel_byte_def by (rule on_grid_of_nat)
qed

lemma floor_coord_lt:
  assumes "0 < old" and "k < 128"
  shows "nat \<lfloor>real old * real k / 128\<rfloor> < old"
proof -
  have "real old * real k < real old * 128"
    using assms by (intro mult_strict_left_mono) simp_all
  then have "real old * real k / 128 < real old" by simp
  then have "\<lfloor>real old * real k / 128\<rfloor> < int old" by (simp add: floor_less_iff)
  then show ?thesis using assms(1) by simp
qed

lemma bilinear_at_resized:
  assumes "valid_image el" and "fromPixels el = Inr t0"
    and "r < 128" and "c < 128" and "ch < 3"
  shows "bilinear_at (vals t0) (elemHeight el) (elemWidth el) 3 128 128 r c ch
         = resized_value el r c ch"
    and "0 \<le> resized_value el r c ch" and "resized_value el r c ch \<le> 255"
proof -
  let ?h = "elemHeight el" and ?w = "elemWidth el"
  have v: "0 < ?w" "?w < 2 ^ 32" "0 < ?h" "?h < 2 ^ 32"
    using assms(1) by (simp_all add: valid_image_def)
  define y0 where "y0 = nat \<lfloor>real ?h * real r / 128\<rfloor>"
  define y1 where "y1 = min (?h - 1) (nat \<lceil>real ?h * real r / 128\<rceil>)"
  define x0 where "x0 = nat \<lfloor>real ?w * real c / 128\<rfloor>"
  define x1 where "x1 = min (?w - 1) (nat \<lceil>real ?w * real c / 128\<rceil>)"
  define fy where "fy = real ?h * real r / 128 - real y0"
  define fx where "fx = real ?w * real c / 128 - real x0"
  have rows: "y0 < ?h" "y1 < ?h" and cols: "x0 < ?w" "x1 < ?w"
    using v floor_coord_lt [OF v(3) assms(3)] floor_coord_lt [OF v(1) assms(4)]
    by (simp_all add: y0_def y1_def x0_def x1_def)
  have sf: "src_floor ?h 128 r = y0" "src_floor ?w 128 c = x0"
    using src_floor_128 [OF v(4) assms(3)] src_floor_128 [OF v(2) assms(4)]
    by (simp_all add: y0_def x0_def)
  have sc: "src_ceil ?h 128 r = y1" "src_ceil ?w 128 c = x1"
    using src_ceil_128 [OF v(4) assms(3) v(3)] src_ceil_128 [OF v(2) assms(4) v(1)]
    by (simp_all add: y1_def x1_def)
  have fr: "src_frac ?h 128 r = fy" "on_grid 7 fy" "0 \<le> fy" "fy \<le> 1"
    using src_frac_128 [OF v(4) assms(3)] by (simp_all add: fy_def y0_def)
  have fc: "src_frac ?w 128 c = fx" "on_grid 7 fx" "0 \<le> fx" "fx \<le> 1"
    using src_frac_128 [OF v(2) assms(4)] by (simp_all add: fx_def x0_def)
  obtain t where t: "fromPixels el = Inr t"
      "\<forall>row<?h. \<forall>col<?w. \<forall>ch<3. vals t ! ((row * ?w + col) * 3 + ch) = pixel_byte el row col ch"
    using fromPixels_valid [OF assms(1)] by blast
  have tt: "t = t0" using t(1) assms(2) by simp
  have px: "vals t0 ! ((row * ?w + col) * 3 + ch) = pixel_byte el row col ch"
    if "row < ?h" "col < ?w" for row col
    using t(2) that assms(5) unfolding tt by blast
  define tl where "tl = pixel_byte el y0 x0 ch"
  define tr where "tr = pixel_byte el y0 x1 ch"
  define bl where "bl = pixel_byte el y1 x0 ch"
  define br where "br = pixel_byte el y1 x1 ch"
  have b: "0 \<le> tl" "tl \<le> 255" "on_grid 0 tl" "0 \<le> tr" "tr \<le> 255" "on_grid 0 tr"
    "0 \<le> bl" "bl \<le> 255" "on_grid 0 bl" "0 \<le> br" "br \<le> 255" "on_grid 0 br"
    unfolding tl_def tr_def bl_def br_def
    using pixel_byte_range [OF assms(1) _ _ assms(5)] rows cols by simp_all
  define top where "top = tl + (tr - tl) * fx"
  define bottom where "bottom = bl + (br - bl) * fx"
  have top: "to_float64 (tl + to_float64 (to_float64 (tr - tl) * fx)) = top"
      "on_grid 7 top" "0 \<le> top" "top \<le> 255"
    using lerp_exact [OF b(3) b(6) fc(2) _ b(1,2) b(4,5) fc(3,4)] by (simp_all add: top_def)
  have bottom: "to_float64 (bl + to_float64 (to_float64 (br - bl) * fx)) = bottom"
      "on_grid 7 bottom" "0 \<le> bottom" "bottom \<le> 255"
    using lerp_exact [OF b(9) b(12) fc(2) _ b(7,8) b(10,11) fc(3,4)] by (simp_all add: bottom_def)
  have val: "to_float64 (top + to_float64 (to_float64 (bottom - top) * fy)) = top + (bottom - top) * fy"
      "on_grid 14 (top + (bottom - top) * fy)" "0 \<le> top + (bottom - top) * fy"
      "top + (bottom - top) * fy \<le> 255"
    using lerp_exact [OF top(2) bottom(2) fr(2) _ top(3,4) bottom(3,4) fr(3,4)] by simp_all
  have f32: "to_float32 (top + (bottom - top) * fy) = top + (bottom - top) * fy"
    by (rule to_float32_exact [OF val(2)]) (use val(3,4) in simp_all)
  have p: "vals t0 ! ((y0 * ?w + x0) * 3 + ch) = tl" "vals t0 ! ((y0 * ?w + x1) * 3 + ch) = tr"
    "vals t0 ! ((y1 * ?w + x0) * 3 + ch) = bl" "vals t0 ! ((y1 * ?w + x1) * 3 + ch) = br"
    using px rows cols by (simp_all only: tl_def tr_def bl_def br_def)
  have "bilinear_at (vals t0) ?h ?w 3 128 128 r c ch = top + (bottom - top) * fy"
    unfolding bilinear_at_def Let_def sf sc fr(1) fc(1) p top(1) bottom(1) val(1) f32
    by (rule refl)
  moreover have rv: "resized_value el r c ch = top + (bottom - top) * fy"
    by (simp add: resized_value_def Let_def IMAGE_SIZE_def top_def bottom_def tl_def tr_def bl_def
        br_def fx_def fy_def x0_def x1_def y0_def y1_def)
  ultimately show "bilinear_at (vals t0) ?h ?w 3 128 128 r c ch = resized_value el r c ch"
    by simp
  show "0 \<le> resized_value el r c ch" "resized_value el r c ch \<le> 255"
    using val(3,4) by (simp_all add: rv)
qed

lemma resizeBilinear_valid:
  assumes "valid_image el" and "fromPixels el = Inr t0"
  shows "\<exists>t1. resizeBilinear t0 (128, 128) = Inr t1 \<and> shape t1 = [128, 128, 3]
           \<and> length (vals t1) = 128 * 128 * 3
           \<and> (\<forall>r<128. \<forall>c<128. \<forall>ch<3.
                 vals t1 ! ((r * 128 + c) * 3 + ch) = resized_value el r c ch)"
proof -
  let ?h = "elemHeight el" and ?w = "elemWidth el"
  let ?cell = "\<lambda>r cl. map (\<lambda>d. bilinear_at (vals t0) ?h ?w 3 128 128 r cl d) [0..<3]"
  let ?row = "\<lambda>r. concat (map (?cell r) [0..<128])"
  have sh: "shape t0 = [?h, ?w, 3]"
    using fromPixels_valid [OF assms(1)] assms(2) by auto
  have f: "resizeBilinear t0 (128, 128) = Inr \<lparr>shape = [128, 128, 3], vals = concat (map ?row [0..<128])\<rparr>"
    using sh by (simp add: resizeBilinear_def Let_def)
  have rowlen: "length (?row r) = 128 * 3" for r
    by (rule length_concat_upt) simp
  have len: "length (concat (map ?row [0..<128])) = 128 * (128 * 3)"
    by (rule length_concat_upt) (simp add: rowlen)
  have "concat (map ?row [0..<128]) ! ((r * 128 + c) * 3 + ch) = resized_value el r c ch"
    if "r < 128" "c < 128" "ch < 3" for r c ch
  proof -
    have i: "(r * 128 + c) * 3 + ch = r * (128 * 3) + (c * 3 + ch)" by simp
    have j: "c * 3 + ch < 128 * 3" using that(2,3) by simp
    have "concat (map ?row [0..<128]) ! (r * (128 * 3) + (c * 3 + ch)) = ?row r ! (c * 3 + ch)"
      using that(1) j by (intro nth_concat_upt) (simp_all add: rowlen)
    also have "\<dots> = ?cell r c ! ch"
      using that(2,3) by (intro nth_concat_upt) simp_all
    also have "\<dots> = bilinear_at (vals t0) ?h ?w 3 128 128 r c ch"
      using that(3) by simp
    also have "\<dots> = resized_value el r c ch"
      using assms that by (rule bilinear_at_resized(1))
    finally show ?thesis unfolding i .
  qed
  then show ?thesis using f len by simp
qed

text \<open>
  Claim C2. For every valid visual source whose bytes lie in \<open>0..255\<close>, \<^verbatim>\<open>preprocessImage\<close>
  returns a tensor of shape \<open>[1, 128, 128, 3]\<close>: a leading batch dimension of size \<open>1\<close>
  in front of the two spatial dimensions, both equal to \<^verbatim>\<open>IMAGE_SIZE\<close>. All its values lie
  in \<open>[0, 1]\<close>. The value at row \<open>r\<close>, column \<open>c\<close>, channel \<open>ch\<close> is the bilinear sample of
  the source bytes at that grid position, a number in \<open>[0, 255]\<close>, divided by \<open>255\<close> in
  double precision and stored in single precision.
\<close>

theorem preprocessImage_shape_and_range:
  assumes "valid_image el"
  shows "\<exists>t. preprocessImage el = Inr t
      \<and> shape t = [1, IMAGE_SIZE, IMAGE_SIZE, 3] \<and> IMAGE_SIZE = 128
      \<and> length (vals t) = 128 * 128 * 3
      \<and> (\<forall>x \<in> set (vals t). 0 \<le> x \<and> x \<le> 1)
      \<and> (\<forall>r<128. \<forall>c<128. \<forall>ch<3.
            vals t ! ((r * 128 + c) * 3 + ch)
              = to_float32 (to_float64 (resized_value el r c ch / 255))
            \<and> 0 \<le> resized_value el r c ch \<and> resized_value el r c ch \<le> 255)"
proof -
  obtain t0 where t0: "fromPixels el = Inr t0"
    using fromPixels_valid [OF assms] by blast
  obtain t1 where t1: "resizeBilinear t0 (128, 128) = Inr t1" "shape t1 = [128, 128, 3]"
      "length (vals t1) = 128 * 128 * 3"
      "\<forall>r<128. \<forall>c<128. \<forall>ch<3. vals t1 ! ((r * 128 + c) * 3 + ch) = resized_value el r c ch"
    using resizeBilinear_valid [OF assms t0] by blast
  define t where "t = expandDims0 (div_255 t1)"
  have p: "preprocessImage el = Inr t"
    using t0 t1(1) by (simp add: preprocessImage_def IMAGE_SIZE_def t_def)
  have sh: "shape t = [1, 128, 128, 3]"
    and vs: "vals t = map (\<lambda>x. to_float32 (to_float64 (x / 255))) (vals t1)"
    using t1(2) by (simp_all add: t_def expandDims0_def div_255_def)
  have len: "length (vals t) = 128 * 128 * 3" using t1(3) by (simp add: vs)
  have cell: "vals t ! ((r * 128 + c) * 3 + ch)
        = to_float32 (to_float64 (resized_value el r c ch / 255))
      \<and> 0 \<le> resized_value el r c ch \<and> resized_value el r c ch \<le> 255
      \<and> (r * 128 + c) * 3 + ch < 128 * 128 * 3"
    if "r < 128" "c < 128" "ch < 3" for r c ch
  proof -
    have "r * 128 + c < 128 * 128" using that(1,2) by simp
    then have i: "(r * 128 + c) * 3 + ch < 128 * 128 * 3" using that(3) by simp
    then have "vals t ! ((r * 128 + c) * 3 + ch)
        = to_float32 (to_float64 (vals t1 ! ((r * 128 + c) * 3 + ch) / 255))"
      using t1(3) by (simp add: vs)
    then show ?thesis
      using t1(4) that bilinear_at_resized(2,3) [OF assms t0 that] i by simp
  qed
  have "0 \<le> x \<and> x \<le> 1" if mem: "x \<in> set (vals t)" for x
  proof -
    obtain i where i: "i < 128 * 128 * 3" "x = vals t ! i"
      using mem len by (metis in_set_conv_nth)
    define ch where "ch = i mod 3"
    define c where "c = (i div 3) mod 128"
    define r where "r = i div 3 div 128"
    have b: "ch < 3" "c < 128" "r < 128" using i(1) by (simp_all add: ch_def c_def r_def)
    have "i = (r * 128 + c) * 3 + ch" by (simp add: ch_def c_def r_def)
    then have "x = to_float32 (to_float64 (resized_value el r c ch / 255))"
      and "0 \<le> resized_value el r c ch" "resized_value el r c ch \<le> 255"
      using cell [OF b(3,2,1)] i(2) by simp_all
    then show ?thesis using to_float_unit_interval [of "resized_value el r c ch / 255"] by simp
  qed
  then show ?thesis using p sh len cell by (intro exI [of _ t]) (simp add: IMAGE_SIZE_def)
qed

text \<open>The two fixtures: constant red everywhere; exact and rounded values of the other.\<close>

lemma valid_fixtures: "valid_image one_pixel" "valid_image four_pixels"
  by (simp_all add: valid_image_def one_pixel_def four_pixels_def)

lemma resized_one_pixel:
  assumes "r < 128" and "c < 128"
  shows "resized_value one_pixel r c ch = real (rgba one_pixel ! ch)"
proof -
  have "\<lfloor>real r / 128\<rfloor> = 0" "\<lfloor>real c / 128\<rfloor> = 0"
    using assms by (simp_all add: floor_eq_iff)
  then show ?thesis
    by (simp add: resized_value_def Let_def pixel_byte_def one_pixel_def IMAGE_SIZE_def)
qed

lemma resized_four_pixels:
  "resized_value four_pixels 0 0 0 = 100"
  "resized_value four_pixels 0 32 1 = 255 / 2"
  "resized_value four_pixels 32 32 0 = 55 / 2"
  "resized_value four_pixels 64 64 2 = 30"
  by code_simp+

lemma rounded_quotients:
  "to_float32 (to_float64 (255 / 255)) = 1"
  "to_float32 (to_float64 (0 / 255)) = 0"
  "to_float32 (to_float64 (100 / 255)) = 13158601 / 33554432"
  "to_float32 (to_float64 (255 / 2 / 255)) = 1 / 2"
  "to_float32 (to_float64 (55 / 2 / 255)) = 14474461 / 134217728"
  "to_float32 (to_float64 (30 / 255)) = 15790321 / 134217728"
  by code_simp+

theorem preprocessImage_shape_and_range_witness:
  "valid_image one_pixel \<and> valid_image four_pixels
   \<and> (\<exists>t. preprocessImage one_pixel = Inr t \<and> shape t = [1, 128, 128, 3]
         \<and> (\<forall>x \<in> set (vals t). 0 \<le> x \<and> x \<le> 1)
         \<and> (\<forall>r<128. \<forall>c<128. vals t ! ((r * 128 + c) * 3 + 0) = 1
               \<and> vals t ! ((r * 128 + c) * 3 + 1) = 0 \<and> vals t ! ((r * 128 + c) * 3 + 2) = 0))
   \<and> (\<exists>t. preprocessImage four_pixels = Inr t \<and> shape t = [1, 128, 128, 3]
         \<and> vals t ! ((0 * 128 + 0) * 3 + 0) = 13158601 / 33554432
         \<and> vals t ! ((0 * 128 + 32) * 3 + 1) = 1 / 2
         \<and> vals t ! ((32 * 128 + 32) * 3 + 0) = 14474461 / 134217728
         \<and> vals t ! ((64 * 128 + 64) * 3 + 2) = 15790321 / 134217728)"
proof -
  obtain t where t: "preprocessImage one_pixel = Inr t" "shape t = [1, IMAGE_SIZE, IMAGE_SIZE, 3]"
      "\<forall>x \<in> set (vals t). 0 \<le> x \<and> x \<le> 1"
      "\<forall>r<128. \<forall>c<128. \<forall>ch<3. vals t ! ((r * 128 + c) * 3 + ch)
          = to_float32 (to_float64 (resized_value one_pixel r c ch / 255))"
    using preprocessImage_shape_and_range [OF valid_fixtures(1)] by blast
  have bytes: "real (rgba one_pixel ! 0) = 255" "real (rgba one_pixel ! 1) = 0"
    "real (rgba one_pixel ! 2) = 0"
    by (simp_all add: one_pixel_def)
  have one: "vals t ! ((r * 128 + c) * 3 + 0) = 1 \<and> vals t ! ((r * 128 + c) * 3 + 1) = 0
      \<and> vals t ! ((r * 128 + c) * 3 + 2) = 0" if rc: "r < 128" "c < 128" for r c
  proof -
    have "vals t ! ((r * 128 + c) * 3 + 0) = to_float32 (to_float64 (255 / 255))"
      using t(4) [rule_format, OF rc, of 0] by (simp only: resized_one_pixel [OF rc] bytes)
    moreover have "vals t ! ((r * 128 + c) * 3 + 1) = to_float32 (to_float64 (0 / 255))"
      using t(4) [rule_format, OF rc, of 1] by (simp only: resized_one_pixel [OF rc] bytes)
    moreover have "vals t ! ((r * 128 + c) * 3 + 2) = to_float32 (to_float64 (0 / 255))"
      using t(4) [rule_format, OF rc, of 2] by (simp only: resized_one_pixel [OF rc] bytes)
    ultimately show ?thesis by (simp only: rounded_quotients simp_thms)
  qed
  obtain u where u: "preprocessImage four_pixels = Inr u" "shape u = [1, IMAGE_SIZE, IMAGE_SIZE, 3]"
      "\<forall>r<128. \<forall>c<128. \<forall>ch<3. vals u ! ((r * 128 + c) * 3 + ch)
          = to_float32 (to_float64 (resized_value four_pixels r c ch / 255))"
    using preprocessImage_shape_and_range [OF valid_fixtures(2)] by blast
  have "vals u ! ((0 * 128 + 0) * 3 + 0) = to_float32 (to_float64 (100 / 255))"
    "vals u ! ((0 * 128 + 32) * 3 + 1) = to_float32 (to_float64 (255 / 2 / 255))"
    "vals u ! ((32 * 128 + 32) * 3 + 0) = to_float32 (to_float64 (55 / 2 / 255))"
    "vals u ! ((64 * 128 + 64) * 3 + 2) = to_float32 (to_float64 (30 / 255))"
    using u(3) [rule_format, of 0 0 0] u(3) [rule_format, of 0 32 1]
      u(3) [rule_format, of 32 32 0] u(3) [rule_format, of 64 64 2]
    by (simp_all only: resized_four_pixels)
  then have four: "vals u ! ((0 * 128 + 0) * 3 + 0) = 13158601 / 33554432"
    "vals u ! ((0 * 128 + 32) * 3 + 1) = 1 / 2"
    "vals u ! ((32 * 128 + 32) * 3 + 0) = 14474461 / 134217728"
    "vals u ! ((64 * 128 + 64) * 3 + 2) = 15790321 / 134217728"
    by (simp_all only: rounded_quotients)
  have sh: "shape t = [1, 128, 128, 3]" "shape u = [1, 128, 128, 3]"
    using t(2) u(2) by (simp_all add: IMAGE_SIZE_def)
  show ?thesis
    using valid_fixtures t(1,3) one u(1) four sh by blast
qed

section \<open>Properties of the Model Loader\<close>

lemma render_fields:
  "model (render s) = model s" "timers (render s) = timers s"
  "forwardPasses (render s) = forwardPasses s" "webcamActive (render s) = webcamActive s"
  "intervalRef (render s) = intervalRef s" "isModelLoading (render s) = isModelLoading s"
  "prediction (render s) = prediction s" "alerts (render s) = alerts s"
  "pendingStarts (render s) = pendingStarts s"
  by (simp_all add: render_def)

lemma step_no_model:
  assumes "no_model s"
  shows "no_model (step a s) \<and> forwardPasses (step a s) = forwardPasses s"
proof (cases a)
  case StartWebcam
  then show ?thesis using assms
    by (simp add: no_model_def present_iff render_fields startWebcam_def)
next
  case (MediaSettles k outcome)
  show ?thesis
  proof (cases "length (pendingStarts s) \<le> k")
    case True
    then show ?thesis using assms MediaSettles
      by (simp add: no_model_def render_fields startWebcam_resume_def)
  next
    case False
    then have "pendingStarts s ! k = None"
      using assms by (simp add: no_model_def present_iff list_all_length)
    moreover have "list_all (\<lambda>m. \<not> present m)
        (take k (pendingStarts s) @ drop (Suc k) (pendingStarts s))"
      using assms by (auto simp add: no_model_def list_all_iff dest: in_set_takeD in_set_dropD)
    ultimately show ?thesis using assms MediaSettles False
      by (auto simp add: no_model_def present_iff render_fields startWebcam_resume_def Let_def
          split: media_outcome.splits option.splits)
  qed
next
  case StopWebcam
  then show ?thesis using assms
    by (auto simp add: no_model_def present_iff render_fields stopWebcam_def Let_def list_all_iff
        split: option.splits)
next
  case (Tick h frame)
  have "map_of (timers s) h = Some m \<Longrightarrow> m = None" for m
    using assms map_of_SomeD [of "timers s" h m] by (auto simp add: no_model_def present_iff list_all_iff)
  then have "intervalTick h frame s = s"
    by (auto simp add: intervalTick_def present_iff split: option.splits)
  then show ?thesis using assms Tick
    by (simp add: no_model_def present_iff render_fields)
next
  case (Upload ev)
  then show ?thesis using assms
    by (auto simp add: no_model_def present_iff render_fields handleImageUpload_def predictImage_None
        split: upload_event.splits)
next
  case (Predict img)
  then show ?thesis using assms
    by (simp add: no_model_def present_iff render_fields predictImage_None)
qed

lemma run_no_model:
  "no_model s \<Longrightarrow> no_model (run as s) \<and> forwardPasses (run as s) = forwardPasses s"
proof (induction as arbitrary: s)
  case Nil
  then show ?case by simp
next
  case (Cons a as)
  then show ?case using step_no_model [of s a] by simp
qed

text \<open>
  Claim C5. With no model handle, a call to \<^verbatim>\<open>predictImage\<close> returns the state it was given:
  no prediction is set, nothing is logged, nothing is thrown. When loading the model fails in
  a state without a model, the alert is shown, the model stays absent and the loading flag is
  cleared; from there on, whatever happens (start clicks, camera requests settling, stop,
  timer ticks, uploads, direct calls), the model stays absent and no forward pass is ever
  started.
\<close>

theorem model_unavailable:
  "predictImage None img s = s
   \<and> (no_model s \<longrightarrow>
        alerts (loadModel LoadRejects s) = alerts s @ [load_alert]
        \<and> model (loadModel LoadRejects s) = None
        \<and> \<not> isModelLoading (loadModel LoadRejects s)
        \<and> (\<forall>as. model (run as (render (loadModel LoadRejects s))) = None
                \<and> forwardPasses (run as (render (loadModel LoadRejects s)))
                  = forwardPasses s))"
proof -
  have a: "no_model s \<Longrightarrow> no_model (render (loadModel LoadRejects s))"
    by (simp add: no_model_def present_iff render_fields loadModel_def Let_def)
  have b: "forwardPasses (render (loadModel LoadRejects s)) = forwardPasses s"
    by (simp add: render_fields loadModel_def Let_def)
  show ?thesis
    using run_no_model [OF a] b
    by (auto simp add: predictImage_None loadModel_def Let_def load_alert_def no_model_def present_iff)
qed

theorem model_unavailable_witness:
  "no_model initial_state \<and> model (mount LoadRejects) = None
   \<and> alerts (mount LoadRejects) = [load_alert]
   \<and> forwardPasses (run [Upload (Decoded ''data:'' one_pixel), StartWebcam,
                          MediaSettles 0 (Granted 1), Tick 1 one_pixel, Predict one_pixel]
                       (mount LoadRejects)) = 0"
proof -
  have r: "mount LoadRejects = render (loadModel LoadRejects initial_state)"
    by (simp add: mount_def render_def initial_state_def)
  have n: "no_model initial_state" by (simp add: no_model_def initial_state_def)
  from model_unavailable [of one_pixel initial_state] n
  have A: "alerts (loadModel LoadRejects initial_state) = alerts initial_state @ [load_alert]"
    and B: "\<And>as. model (run as (mount LoadRejects)) = None
            \<and> forwardPasses (run as (mount LoadRejects)) = forwardPasses initial_state"
    unfolding r by blast+
  have "model (mount LoadRejects) = None" using B [of "[]"] by simp
  moreover have "alerts (mount LoadRejects) = [load_alert]"
    using A by (simp add: r render_fields initial_state_def)
  moreover have "forwardPasses (run [Upload (Decoded ''data:'' one_pixel), StartWebcam,
      MediaSettles 0 (Granted 1), Tick 1 one_pixel, Predict one_pixel] (mount LoadRejects))
      = forwardPasses initial_state"
    using B by blast
  moreover have "forwardPasses initial_state = 0" by (simp add: initial_state_def)
  ultimately show ?thesis using n by (simp only: simp_thms)
qed

section \<open>Properties of the Capture Orchestrator\<close>

subsection \<open>Stopping while inactive\<close>

lemma stopWebcam_at_rest:
  assumes "at_rest s" and "\<not> webcamActive s"
  shows "stopWebcam s = s\<lparr>prediction := None\<rparr>"
  using assms by (auto simp add: at_rest_def stopWebcam_def Let_def split: option.splits)

lemma render_inv: "session_inv s \<Longrightarrow> session_inv (render s)"
  by (auto simp add: session_inv_def at_rest_def render_def split: option.splits)

lemma startWebcam_inv: "session_inv s \<Longrightarrow> session_inv (startWebcam s)"
  by (simp add: session_inv_def at_rest_def startWebcam_def)

lemma startWebcam_resume_inv: "session_inv s \<Longrightarrow> session_inv (startWebcam_resume k outcome s)"
  by (auto simp add: session_inv_def at_rest_def startWebcam_resume_def Let_def
      split: option.splits media_outcome.splits)

lemma stopWebcam_inv: "session_inv s \<Longrightarrow> session_inv (stopWebcam s)"
  by (auto simp add: session_inv_def at_rest_def stopWebcam_def Let_def split: option.splits)

lemma predictImage_inv: "session_inv s \<Longrightarrow> session_inv (predictImage mo el s)"
  by (simp add: session_inv_def at_rest_def predictImage_frame)

lemma step_inv: "session_inv s \<Longrightarrow> session_inv (step a s)"
proof (cases a)
  case (Tick h frame)
  assume "session_inv s"
  then have "session_inv (intervalTick h frame s)"
    by (simp add: intervalTick_def predictImage_inv split: option.splits)
  then show ?thesis using Tick by (simp add: render_inv)
next
  case (Upload ev)
  assume i: "session_inv s"
  have "session_inv (s\<lparr>imagePreview := u\<rparr>)" for u
    using i by (simp add: session_inv_def at_rest_def)
  then have "session_inv (handleImageUpload ev s)"
    using i by (simp add: handleImageUpload_def predictImage_inv split: upload_event.splits)
  then show ?thesis using Upload by (simp add: render_inv)
qed (simp_all add: render_inv startWebcam_inv startWebcam_resume_inv stopWebcam_inv
    predictImage_inv)

lemma run_inv: "session_inv s \<Longrightarrow> session_inv (run as s)"
  by (induction as arbitrary: s) (simp_all add: step_inv)

lemma mount_inv: "session_inv (mount outcome)"
  by (simp add: session_inv_def at_rest_def mount_def render_def loadModel_def
      initial_state_def Let_def split: load_outcome.splits)

lemma uploaded_facts:
  "\<not> webcamActive uploaded_state"
  "prediction uploaded_state
   = Some \<lparr>fruit = Some (''Pl'' @ [CHR 0xE1] @ ''tano''), confidence = Fin 70\<rparr>"
proof -
  obtain t where t: "preprocessImage one_pixel = Inr t"
    using preprocess_one_pixel by blast
  show "\<not> webcamActive uploaded_state"
    by (simp add: uploaded_state_def render_def handleImageUpload_def predictImage_frame
        mount_def loadModel_def initial_state_def)
  have "model (mount (Loaded mock_model)) = Some mock_model"
    by (simp add: mount_def render_def loadModel_def)
  then show "prediction uploaded_state
      = Some \<lparr>fruit = Some (''Pl'' @ [CHR 0xE1] @ ''tano''), confidence = Fin 70\<rparr>"
    using mock_prediction [OF t] by (simp add: uploaded_state_def render_def handleImageUpload_def)
qed

text \<open>
  Claim C6, as stated, fails: \<^verbatim>\<open>stopWebcam\<close> ends with \<^verbatim>\<open>setPrediction(null)\<close> whether or not
  the webcam was active. After an upload the webcam is inactive and a Prediction is shown;
  the call (made, for instance, by the unmount cleanup) removes that Prediction.
\<close>

theorem stopWebcam_inactive_changes_state:
  "\<not> webcamActive uploaded_state \<and> stopWebcam uploaded_state \<noteq> uploaded_state"
proof -
  have "prediction (stopWebcam uploaded_state) = None"
    by (simp add: stopWebcam_def Let_def split: option.splits)
  then have "prediction (stopWebcam uploaded_state) \<noteq> prediction uploaded_state"
    by (simp add: uploaded_facts(2))
  then show ?thesis using uploaded_facts(1) by auto
qed

text \<open>
  Claim C6, amended. In every state the mounted component can reach, calling \<^verbatim>\<open>stopWebcam\<close>
  while the webcam is inactive returns normally and changes nothing but the current
  Prediction, which is cleared; when no Prediction is present the state is unchanged.
\<close>

theorem stopWebcam_inactive_clears_prediction:
  assumes "s = run as (mount outcome)" and "\<not> webcamActive s"
  shows "stopWebcam s = s\<lparr>prediction := None\<rparr> \<and> (prediction s = None \<longrightarrow> stopWebcam s = s)"
proof -
  have "session_inv s" using assms(1) run_inv [OF mount_inv] by simp
  then have "at_rest s" using assms(2) by (simp add: session_inv_def)
  then have "stopWebcam s = s\<lparr>prediction := None\<rparr>"
    using assms(2) by (rule stopWebcam_at_rest)
  then show ?thesis by auto
qed

theorem stopWebcam_inactive_clears_prediction_witness:
  "\<not> webcamActive uploaded_state
   \<and> stopWebcam uploaded_state = uploaded_state\<lparr>prediction := None\<rparr>
   \<and> prediction (mount LoadRejects) = None
   \<and> stopWebcam (mount LoadRejects) = mount LoadRejects"
proof -
  have a: "\<not> webcamActive (mount LoadRejects)" "prediction (mount LoadRejects) = None"
    by (simp_all add: mount_def render_def loadModel_def initial_state_def)
  have b: "mount LoadRejects = run [] (mount LoadRejects)" by simp
  show ?thesis
    using stopWebcam_inactive_clears_prediction [OF uploaded_state_def uploaded_facts(1)]
      stopWebcam_inactive_clears_prediction [OF b a(1)] a(2) uploaded_facts(1)
    by blast
qed

subsection \<open>Starting twice, and stopping after that\<close>

text \<open>
  What \<^verbatim>\<open>stopWebcam\<close> does when a stream is attached and a handle is held: it clears the
  timer of that handle and stops the tracks of that stream. Other timers and other tracks
  are not reached.
\<close>

lemma stopWebcam_releases_what_is_held:
  assumes "videoRef s = Some v" and "srcObject v = Some stream"
    and "intervalRef s = Some h" and "h \<noteq> 0"
  shows "timers (stopWebcam s) = filter (\<lambda>p. fst p \<noteq> h) (timers s)"
    and "liveTracks (stopWebcam s) = filter (\<lambda>t. t \<notin> set stream) (liveTracks s)"
    and "videoRef (stopWebcam s) = Some (v\<lparr>srcObject := None\<rparr>)"
    and "intervalRef (stopWebcam s) = None"
    and "prediction (stopWebcam s) = None"
    and "\<not> webcamActive (stopWebcam s)"
  using assms by (simp_all add: stopWebcam_def Let_def)

text \<open>After a single granted start, stopping leaves no timer and no live track.\<close>

lemma streaming_facts:
  "webcamActive streaming_state"
  "videoRef streaming_state = Some \<lparr>srcObject = Some [0]\<rparr>"
  "intervalRef streaming_state = Some 1"
  "map fst (timers streaming_state) = [1]"
  "liveTracks streaming_state = [0]"
  by (simp_all add: streaming_state_def startWebcam_def startWebcam_resume_def mount_def
      render_def loadModel_def initial_state_def Let_def)

lemma stop_after_single_start:
  "timers (stopWebcam streaming_state) = []"
  "liveTracks (stopWebcam streaming_state) = []"
  "videoRef (stopWebcam streaming_state) = Some \<lparr>srcObject = None\<rparr>"
  "prediction (stopWebcam streaming_state) = None"
  "\<not> webcamActive (stopWebcam streaming_state)"
proof -
  have a: "srcObject \<lparr>srcObject = Some [0::nat]\<rparr> = Some [0]" and b: "(1::nat) \<noteq> 0"
    by simp_all
  have "filter (\<lambda>p. fst p \<noteq> 1) (timers streaming_state) = []"
    using streaming_facts(4) by (cases "timers streaming_state") auto
  then show "timers (stopWebcam streaming_state) = []"
    using stopWebcam_releases_what_is_held(1) [OF streaming_facts(2) a streaming_facts(3) b]
    by simp
  show "liveTracks (stopWebcam streaming_state) = []"
    using stopWebcam_releases_what_is_held(2) [OF streaming_facts(2) a streaming_facts(3) b]
    by (simp add: streaming_facts(5))
  show "videoRef (stopWebcam streaming_state) = Some \<lparr>srcObject = None\<rparr>"
    using stopWebcam_releases_what_is_held(3) [OF streaming_facts(2) a streaming_facts(3) b]
    by simp
  show "prediction (stopWebcam streaming_state) = None"
    and "\<not> webcamActive (stopWebcam streaming_state)"
    by (simp_all add: stopWebcam_def Let_def split: option.splits)
qed

text \<open>The state after the two overlapping starts.\<close>

lemma double_start_facts:
  "webcamActive double_start_state"
  "videoRef double_start_state = Some \<lparr>srcObject = Some [1]\<rparr>"
  "intervalRef double_start_state = Some 2"
  "map fst (timers double_start_state) = [1, 2]"
  "liveTracks double_start_state = [0, 1]"
  "pendingStarts double_start_state = []"
  by (simp_all add: double_start_state_def startWebcam_def startWebcam_resume_def mount_def
      render_def loadModel_def initial_state_def Let_def)

text \<open>
  Claim C4. At most one sampling timer should be active after any sequence of start and
  stop calls. The code does not keep to it. The start button is clicked twice before the
  first camera request has settled: at both clicks \<^verbatim>\<open>webcamActive\<close> is false, so the button
  is there to be clicked. Both requests are then granted, and each continuation registers
  an interval of its own. Two timers are active, and the ref holds only the second handle.
\<close>

theorem double_start_two_timers:
  "\<not> webcamActive (mount (Loaded mock_model))
   \<and> \<not> webcamActive (run [StartWebcam] (mount (Loaded mock_model)))
   \<and> map fst (timers double_start_state) = [1, 2]
   \<and> intervalRef double_start_state = Some 2"
proof -
  have "\<not> webcamActive (mount (Loaded mock_model))"
    and "\<not> webcamActive (run [StartWebcam] (mount (Loaded mock_model)))"
    by (simp_all add: startWebcam_def mount_def render_def loadModel_def initial_state_def)
  then show ?thesis using double_start_facts(3,4) by simp
qed

text \<open>
  Claim C7. After \<^verbatim>\<open>stopWebcam\<close> from the Active state the sampling loop should be halted
  and no camera track should remain live. After the two overlapping starts the component
  is Active: the flag is set, a stream is attached and a handle is held. \<^verbatim>\<open>stopWebcam\<close>
  then clears the Prediction, the flag, the handle and the video element, but it reaches
  only the second start's timer and stream: timer \<open>1\<close> keeps firing and track \<open>0\<close> stays
  live.
\<close>

theorem stop_after_double_start_leaks:
  "webcamActive double_start_state
   \<and> videoRef double_start_state = Some \<lparr>srcObject = Some [1]\<rparr>
   \<and> intervalRef double_start_state = Some 2
   \<and> map fst (timers (stopWebcam double_start_state)) = [1]
   \<and> liveTracks (stopWebcam double_start_state) = [0]
   \<and> \<not> webcamActive (stopWebcam double_start_state)
   \<and> prediction (stopWebcam double_start_state) = None
   \<and> videoRef (stopWebcam double_start_state) = Some \<lparr>srcObject = None\<rparr>"
proof -
  have a: "srcObject \<lparr>srcObject = Some [1::nat]\<rparr> = Some [1]" and b: "(2::nat) \<noteq> 0"
    by simp_all
  note r = stopWebcam_releases_what_is_held
    [OF double_start_facts(2) a double_start_facts(3) b]
  have "map fst (filter (\<lambda>p. fst p \<noteq> 2) (timers double_start_state))
        = filter (\<lambda>h. h \<noteq> 2) (map fst (timers double_start_state))"
    by (simp add: filter_map comp_def)
  then have "map fst (timers (stopWebcam double_start_state)) = [1]"
    using r(1) double_start_facts(4) by simp
  moreover have "liveTracks (stopWebcam double_start_state) = [0]"
    using r(2) double_start_facts(5) by simp
  ultimately show ?thesis using r(3,5,6) double_start_facts(1,2,3) by simp
qed

end
